theory Spec2Isabelle
  imports Complex_Main
begin

section \<open>TINT: phase correlation and the scan loop of \<open>Cell_tracks\<close>\<close>

text \<open>
  A shallow embedding of \<^verbatim>\<open>tint/phase_correlation.py\<close> and of
  \<^verbatim>\<open>Cell_tracks.get_tracks\<close> in \<^verbatim>\<open>tint/tracks.py\<close>.

  Conventions.
  \<^item> A two-dimensional numpy array is a list of rows. Array elements are exact reals
    (complex numbers for the Fourier transforms): rounding of the floating-point
    operations is not part of the model.
  \<^item> A Python exception is a value \<open>Inl e\<close> of the result type \<open>error + 'a\<close>.
  \<^item> The interactive breakpoint of \<^verbatim>\<open>fft_flowvectors\<close> is an event of a trace that
    the functions return beside their result; execution resumes after it.
  \<^item> The lines that \<^verbatim>\<open>get_tracks\<close> prints are a list of notices that the call
    returns beside the instance it leaves. A call that raises is its exception alone.
\<close>

subsection \<open>Python and numpy values\<close>

datatype error =
    TypeError | ValueError | KeyError | IndexError | StopIteration
  | UnboundLocalError | AttributeError | ZeroDivisionError

datatype event = Pdb_set_trace

text \<open>Sequencing: the first exception raised ends the computation.\<close>

fun rbind :: "error + 'a \<Rightarrow> ('a \<Rightarrow> error + 'b) \<Rightarrow> error + 'b" where
  "rbind (Inl e) f = Inl e"
| "rbind (Inr v) f = f v"

type_synonym matrix = "real list list"
type_synonym cmatrix = "complex list list"
type_synonym shift = "int \<times> int"

text \<open>\<^verbatim>\<open>a.shape\<close> of a two-dimensional array.\<close>

definition shape :: "'a list list \<Rightarrow> nat \<times> nat" where
  "shape a = (length a, case a of [] \<Rightarrow> 0 | r # _ \<Rightarrow> length r)"

text \<open>An array of \<open>R\<close> rows and \<open>C\<close> columns: every row has the same length.\<close>

definition is_array :: "nat \<Rightarrow> nat \<Rightarrow> 'a list list \<Rightarrow> bool" where
  "is_array R C a \<longleftrightarrow> length a = R \<and> list_all (\<lambda>r. length r = C) a"

text \<open>\<^verbatim>\<open>np.max(a)\<close>: the largest element; a zero-size array raises ValueError.\<close>

definition np_max :: "matrix \<Rightarrow> error + real" where
  "np_max a = (case concat a of [] \<Rightarrow> Inl ValueError | x # xs \<Rightarrow> Inr (fold max xs x))"

text \<open>\<^verbatim>\<open>np.int(x)\<close> is Python's \<^verbatim>\<open>int\<close>: truncation towards zero.\<close>

definition np_int :: "real \<Rightarrow> int" where
  "np_int x = (if 0 \<le> x then \<lfloor>x\<rfloor> else \<lceil>x\<rceil>)"

text \<open>
  A slice \<^verbatim>\<open>xs[start:stop]\<close>: a negative index counts from the end, and both
  indices are clipped to the length.
\<close>

definition slice_index :: "nat \<Rightarrow> int \<Rightarrow> nat" where
  "slice_index n i = (if i < 0 then nat (max (i + int n) 0) else min (nat i) n)"

definition py_slice :: "'a list \<Rightarrow> int \<Rightarrow> int \<Rightarrow> 'a list" where
  "py_slice xs start stop =
     (let n = length xs; lo = slice_index n start; hi = slice_index n stop
      in take (hi - lo) (drop lo xs))"

text \<open>
  An elementwise binary operation of two arrays, with numpy's broadcasting: the
  shapes must agree on each axis, or one of them is 1 there.
\<close>

definition broadcast :: "('a \<Rightarrow> 'b \<Rightarrow> 'c) \<Rightarrow> 'a list list \<Rightarrow> 'b list list \<Rightarrow> error + 'c list list" where
  "broadcast f a b =
     (let (R1, C1) = shape a; (R2, C2) = shape b
      in if (R1 = R2 \<or> R1 = 1 \<or> R2 = 1) \<and> (C1 = C2 \<or> C1 = 1 \<or> C2 = 1)
         then Inr (map (\<lambda>i. map (\<lambda>j.
                     f (a ! (if R1 = 1 then 0 else i) ! (if C1 = 1 then 0 else j))
                       (b ! (if R2 = 1 then 0 else i) ! (if C2 = 1 then 0 else j)))
                   [0..<(if C1 = 1 then C2 else C1)]) [0..<(if R1 = 1 then R2 else R1)])
         else Inl ValueError)"

text \<open>
  \<^verbatim>\<open>np.fft.fft2\<close> and \<^verbatim>\<open>np.fft.ifft2\<close>: the two-dimensional discrete Fourier
  transform and its inverse. An axis of length 0 raises ValueError.
\<close>

definition fft2 :: "cmatrix \<Rightarrow> error + cmatrix" where
  "fft2 a =
     (let (R, C) = shape a
      in if R = 0 \<or> C = 0 then Inl ValueError
         else Inr (map (\<lambda>k. map (\<lambda>l.
                (\<Sum>m<R. \<Sum>n<C. a ! m ! n *
                   cis (- (2 * pi * (real (k * m) / real R + real (l * n) / real C)))))
              [0..<C]) [0..<R]))"

definition ifft2 :: "cmatrix \<Rightarrow> error + cmatrix" where
  "ifft2 a =
     (let (R, C) = shape a
      in if R = 0 \<or> C = 0 then Inl ValueError
         else Inr (map (\<lambda>m. map (\<lambda>n.
                (\<Sum>k<R. \<Sum>l<C. a ! k ! l *
                   cis (2 * pi * (real (k * m) / real R + real (l * n) / real C)))
                / of_nat (R * C))
              [0..<C]) [0..<R]))"

text \<open>
  \<^verbatim>\<open>scipy.ndimage.gaussian_filter(a, sigma)\<close> with its defaults (order 0, mode
  \<^verbatim>\<open>reflect\<close>, truncate 4.0): along axis 0 and then along axis 1, the correlation
  with the normalised Gaussian kernel of radius \<^verbatim>\<open>int(4 * sigma + 0.5)\<close>, on the
  array extended by reflection about its edges.
\<close>

definition gaussian_kernel1d :: "real \<Rightarrow> nat \<Rightarrow> real list" where
  "gaussian_kernel1d sigma radius =
     (let phi_x = map (\<lambda>k. exp (- 0.5 / (sigma * sigma) * (real k - real radius)\<^sup>2))
                      [0..<2 * radius + 1]
      in map (\<lambda>p. p / sum_list phi_x) phi_x)"

definition reflect_index :: "nat \<Rightarrow> int \<Rightarrow> nat" where
  "reflect_index n i =
     (let p = i mod (2 * int n) in nat (if p < int n then p else 2 * int n - 1 - p))"

definition gaussian_filter :: "matrix \<Rightarrow> real \<Rightarrow> matrix" where
  "gaussian_filter a sigma =
     (let (R, C) = shape a;
          lw = nat (np_int (4 * sigma + 0.5));
          weights = rev (gaussian_kernel1d sigma lw);
          a0 = map (\<lambda>i. map (\<lambda>j.
                 (\<Sum>k<2 * lw + 1. weights ! k *
                    a ! reflect_index R (int i + int k - int lw) ! j)) [0..<C]) [0..<R]
      in map (\<lambda>i. map (\<lambda>j.
           (\<Sum>k<2 * lw + 1. weights ! k *
              a0 ! i ! reflect_index C (int j + int k - int lw))) [0..<C]) [0..<R])"

text \<open>
  \<^verbatim>\<open>np.argwhere(a == v)[0]\<close>: the first index, in row-major order, of an element
  equal to \<open>v\<close>; IndexError when there is none.
\<close>

definition argwhere_first :: "matrix \<Rightarrow> real \<Rightarrow> error + (nat \<times> nat)" where
  "argwhere_first a v =
     (let (R, C) = shape a
      in case filter (\<lambda>(i, j). a ! i ! j = v) (List.product [0..<R] [0..<C]) of
           [] \<Rightarrow> Inl IndexError
         | p # _ \<Rightarrow> Inr p)"

subsection \<open>\<^verbatim>\<open>phase_correlation.py\<close>\<close>

text \<open>
  \<^verbatim>\<open>fft_shift(fft_mat, rd, cd)\<close>: the four blocks cut at row \<open>rd\<close> and column
  \<open>cd\<close>, put together again in swapped order. The argument is a numpy array (the
  other branch of the source prints a message); \<open>rd\<close> and \<open>cd\<close> are the
  non-negative integers \<^verbatim>\<open>ceil(dims/2)\<close> of the caller.
\<close>

definition fft_shift :: "'a list list \<Rightarrow> nat \<Rightarrow> nat \<Rightarrow> 'a list list" where
  "fft_shift fft_mat rd cd =
     (let quad1 = map (take cd) (take rd fft_mat);
          quad2 = map (drop cd) (take rd fft_mat);
          quad3 = map (drop cd) (drop rd fft_mat);
          quad4 = map (take cd) (drop rd fft_mat);
          centered_t = quad4 @ quad1;
          centered_b = quad3 @ quad2;
          centered = map2 (@) centered_b centered_t
      in centered)"

text \<open>
  \<^verbatim>\<open>fft_crosscov(im1, im2, rd, cd)\<close>. \<open>cross_power_spectrum\<close> is lines 67 to 71
  and \<open>crosscov_surface\<close> lines 67 to 73, the surface before the quadrant swap: the
  real part of the inverse transform of the normalised cross-power spectrum.
\<close>

definition cross_power_spectrum :: "matrix \<Rightarrow> matrix \<Rightarrow> error + cmatrix" where
  "cross_power_spectrum im1 im2 =
     rbind (fft2 (map (map complex_of_real) im1)) (\<lambda>fft1.
     let fft1_conj = map (map cnj) fft1 in
     rbind (fft2 (map (map complex_of_real) im2)) (\<lambda>fft2'.
     rbind (broadcast (*) fft2' fft1_conj) (\<lambda>cross.
     let normalize = map (map (\<lambda>z. if cmod z = 0 then 1 else cmod z)) cross
     in Inr (map2 (map2 (\<lambda>z n. z / complex_of_real n)) cross normalize))))"

definition crosscov_surface :: "matrix \<Rightarrow> matrix \<Rightarrow> error + matrix" where
  "crosscov_surface im1 im2 =
     rbind (cross_power_spectrum im1 im2) (\<lambda>cps.
     rbind (ifft2 cps) (\<lambda>crosscov.
     Inr (map (map Re) crosscov)))"

definition fft_crosscov :: "matrix \<Rightarrow> matrix \<Rightarrow> nat \<Rightarrow> nat \<Rightarrow> error + matrix" where
  "fft_crosscov im1 im2 rd cd =
     rbind (crosscov_surface im1 im2) (\<lambda>crosscov. Inr (fft_shift crosscov rd cd))"

text \<open>
  \<^verbatim>\<open>fft_flowvectors(im1, im2, global_shift)\<close>. The result is paired with the trace
  of debugger events. \<open>no_signal\<close> is the right operand of the gate's \<^verbatim>\<open>and\<close>:
  its \<^verbatim>\<open>or\<close> evaluates \<^verbatim>\<open>np.max(im2)\<close> only when \<^verbatim>\<open>np.max(im1)\<close> is not 0, and
  global mode evaluates neither. \<open>peak_shift\<close> is lines 52 to 62, the computation
  after the breakpoint.
\<close>

definition no_signal :: "matrix \<Rightarrow> matrix \<Rightarrow> error + bool" where
  "no_signal im1 im2 =
     rbind (np_max im1) (\<lambda>m1.
     if m1 = 0 then Inr True
     else rbind (np_max im2) (\<lambda>m2. Inr (m2 = 0)))"

definition peak_shift :: "matrix \<Rightarrow> matrix \<Rightarrow> error + shift" where
  "peak_shift im1 im2 =
     (let (R, C) = shape im1;
          rd = (R + 1) div 2;
          cd = (C + 1) div 2
      in rbind (fft_crosscov im1 im2 rd cd) (\<lambda>crosscov.
         let sigma = (1 / 8) * real (min (fst (shape crosscov)) (snd (shape crosscov)));
             cov_smooth = gaussian_filter crosscov sigma
         in rbind (np_max cov_smooth) (\<lambda>peak.
            rbind (argwhere_first cov_smooth peak) (\<lambda>(pr, pc).
            Inr (int pr - (int R - int rd), int pc - (int C - int cd))))))"

definition fft_flowvectors :: "matrix \<Rightarrow> matrix \<Rightarrow> bool \<Rightarrow> event list \<times> (error + shift option)" where
  "fft_flowvectors im1 im2 global_shift =
     (case (if global_shift then Inr False else no_signal im1 im2) of
        Inl e \<Rightarrow> ([], Inl e)
      | Inr True \<Rightarrow> ([], Inr None)
      | Inr False \<Rightarrow>
          ([Pdb_set_trace], rbind (peak_shift im1 im2) (\<lambda>pshift. Inr (Some pshift))))"

text \<open>\<^verbatim>\<open>get_global_shift(im1, im2)\<close>; \<open>None\<close> for \<open>im2\<close> is Python's \<^verbatim>\<open>None\<close>.\<close>

definition get_global_shift :: "matrix \<Rightarrow> matrix option \<Rightarrow> event list \<times> (error + shift option)" where
  "get_global_shift im1 im2 =
     (case im2 of None \<Rightarrow> ([], Inr None)
      | Some im2' \<Rightarrow> fft_flowvectors im1 im2' True)"

text \<open>
  \<^verbatim>\<open>get_ambient_flow(obj_extent, img1, img2, params, grid_size)\<close>. The first
  definition is lines 18 to 34 of the source, the bounds of the flow region:
  \<open>(row_lb, row_ub, col_lb, col_ub)\<close>. A grid size of 0 makes the margin infinite
  or undefined, and its conversion to an integer raises: the model returns
  ZeroDivisionError for it.
\<close>

record obj_extent =
  obj_center :: "real \<times> real"
  obj_radius :: real

definition flow_region_bounds ::
    "obj_extent \<Rightarrow> nat \<times> nat \<Rightarrow> real \<Rightarrow> real \<times> real \<times> real \<Rightarrow> int \<times> int \<times> int \<times> int" where
  "flow_region_bounds ext dims FLOW_MARGIN grid_size =
     (let margin_r = FLOW_MARGIN / fst (snd grid_size);
          margin_c = FLOW_MARGIN / snd (snd grid_size);
          row_lb = fst (obj_center ext) - obj_radius ext - margin_r;
          row_ub = fst (obj_center ext) + obj_radius ext + margin_r;
          col_lb = snd (obj_center ext) - obj_radius ext - margin_c;
          col_ub = snd (obj_center ext) + obj_radius ext + margin_c;
          row_lb = np_int row_lb;
          row_ub = np_int row_ub;
          col_lb = np_int col_lb;
          col_ub = np_int col_ub;
          row_lb = max row_lb 0;
          row_ub = min row_ub (int (fst dims));
          col_lb = max col_lb 0;
          col_ub = max col_ub (int (snd dims))
      in (row_lb, row_ub, col_lb, col_ub))"

definition binarize :: "matrix \<Rightarrow> matrix" where
  "binarize a = map (map (\<lambda>v. if v \<noteq> 0 then 1 else v)) a"

definition flow_region :: "matrix \<Rightarrow> int \<times> int \<times> int \<times> int \<Rightarrow> matrix" where
  "flow_region img b =
     (case b of (row_lb, row_ub, col_lb, col_ub) \<Rightarrow>
        map (\<lambda>r. py_slice r col_lb (col_ub + 1)) (py_slice img row_lb (row_ub + 1)))"

definition get_ambient_flow ::
    "obj_extent \<Rightarrow> matrix \<Rightarrow> matrix \<Rightarrow> real \<Rightarrow> real \<times> real \<times> real
       \<Rightarrow> event list \<times> (error + shift option)" where
  "get_ambient_flow ext img1 img2 FLOW_MARGIN grid_size =
     (if fst (snd grid_size) = 0 \<or> snd (snd grid_size) = 0 then ([], Inl ZeroDivisionError)
      else
        let b = flow_region_bounds ext (shape img1) FLOW_MARGIN grid_size;
            flow_region1 = binarize (flow_region img1 b);
            flow_region2 = binarize (flow_region img2 b)
        in fft_flowvectors flow_region1 flow_region2 False)"

subsection \<open>Collaborators of \<^verbatim>\<open>tracks.py\<close> outside the sources\<close>

text \<open>
  \<^verbatim>\<open>tracks.py\<close> imports \<^verbatim>\<open>grid_utils\<close>, \<^verbatim>\<open>helpers\<close>, \<^verbatim>\<open>matching\<close> and
  \<^verbatim>\<open>objects\<close>, which are not among the sources. What \<^verbatim>\<open>get_tracks\<close> reads of
  their results is modelled here; the functions that only transform opaque data
  are parameters of the model (the record \<open>collaborators\<close> below).
\<close>

type_synonym opaque = nat
type_synonym Counter = nat
type_synonym objects = "(nat \<times> opaque) list"

text \<open>
  Python's \<^verbatim>\<open>datetime.timedelta\<close>: days, seconds and microseconds, normalised so
  that \<open>0 \<le> seconds < 86400\<close> and \<open>0 \<le> microseconds < 1000000\<close>. \<open>datetime_diff t2 t1\<close>
  is the difference \<^verbatim>\<open>t2 - t1\<close> of two datetimes given in microseconds.
\<close>

record timedelta =
  days :: int
  seconds :: int
  microseconds :: int

definition datetime_diff :: "int \<Rightarrow> int \<Rightarrow> timedelta" where
  "datetime_diff t2 t1 =
     (let us = t2 - t1
      in \<lparr>days = us div 86400000000,
          seconds = (us mod 86400000000) div 1000000,
          microseconds = us mod 1000000\<rparr>)"

definition total_seconds :: "timedelta \<Rightarrow> real" where
  "total_seconds td =
     real_of_int ((days td * 86400 + seconds td) * 1000000 + microseconds td) / 1000000"

text \<open>
  Modelled from the spec: the grid objects and \<^verbatim>\<open>extract_grid_data\<close>,
  \<^verbatim>\<open>get_grid_size\<close>, \<^verbatim>\<open>get_radar_info\<close> of \<^verbatim>\<open>grid_utils\<close> (the GridProcessor of the
  spec) are missing. A grid is represented by what these functions derive from it for
  the field, the grid size and the parameters of the instance: its timestamp (in
  microseconds), its cell size, the radar metadata, the raw field, the secondary
  (rain) field, one detection frame per vertical level, and the auxiliary products.
\<close>

record Grid =
  grid_time :: int
  grid_cell_size :: "real \<times> real \<times> real"
  grid_radar_info :: opaque
  grid_raw :: matrix
  grid_raw_rain :: matrix
  grid_frames :: "matrix list"
  grid_cores :: opaque
  grid_sclasses :: opaque

text \<open>
  Modelled from the spec: the class \<^verbatim>\<open>Record\<close> of \<^verbatim>\<open>helpers\<close> is missing. The Record
  holds the current scan index, the current scan's timestamp and the interval
  between the two scans of the last update (null before the first update with two
  grids). It is updated once per loop iteration, with a pair of grids or, for the
  terminal iteration, with one grid only. The index starts at \<open>- 1\<close>, so that the
  first scan processed has index 0.
\<close>

record Record =
  scan :: int
  time :: "int option"
  interval :: "timedelta option"

definition new_Record :: "Grid \<Rightarrow> Record" where
  "new_Record grid_obj = \<lparr>scan = - 1, time = None, interval = None\<rparr>"

definition update_scan_and_time :: "Record \<Rightarrow> Grid \<Rightarrow> Grid option \<Rightarrow> Record" where
  "update_scan_and_time r grid_obj1 grid_obj2 =
     (let r1 = r\<lparr>scan := scan r + 1, time := Some (grid_time grid_obj1)\<rparr>
      in case grid_obj2 of
           None \<Rightarrow> r1
         | Some g2 \<Rightarrow> r1\<lparr>interval := Some (datetime_diff (grid_time g2) (grid_time grid_obj1))\<rparr>)"

text \<open>
  \<^verbatim>\<open>record.interval.total_seconds()\<close>: an AttributeError when the interval is
  \<^verbatim>\<open>None\<close>.
\<close>

definition interval_total_seconds :: "Record \<Rightarrow> error + real" where
  "interval_total_seconds r =
     (case interval r of None \<Rightarrow> Inl AttributeError | Some td \<Rightarrow> Inr (total_seconds td))"

text \<open>
  Modelled from the spec: the class \<^verbatim>\<open>Counter\<close> of \<^verbatim>\<open>helpers\<close> is missing, a
  monotonically increasing source of uids. A new Counter has issued no uid.
\<close>

definition new_Counter :: Counter where
  "new_Counter = 0"

text \<open>
  The TracksTable is a pandas DataFrame: here the list of its rows, each with the
  scan index it is indexed by. \<^verbatim>\<open>DataFrame.drop(label)\<close> returns a new table without
  the rows of that index and leaves the table itself as it is; it raises KeyError
  when no row has the index.
\<close>

record row =
  row_scan :: int
  row_uid :: nat
  row_props :: opaque

type_synonym table = "row list"

definition drop_rows :: "table \<Rightarrow> int \<Rightarrow> error + table" where
  "drop_rows t label =
     (if list_ex (\<lambda>r. row_scan r = label) t
      then Inr (filter (\<lambda>r. row_scan r \<noteq> label) t)
      else Inl KeyError)"

text \<open>\<^verbatim>\<open>xs[i]\<close> for a Python list: a negative index counts from the end.\<close>

definition py_index :: "'a list \<Rightarrow> int \<Rightarrow> error + 'a" where
  "py_index xs i =
     (let n = int (length xs); j = (if i < 0 then n + i else i)
      in if 0 \<le> j \<and> j < n then Inr (xs ! nat j) else Inl IndexError)"

text \<open>\<^verbatim>\<open>np.zeros_like(a)\<close>.\<close>

definition zeros_like :: "matrix \<Rightarrow> matrix" where
  "zeros_like a = map (map (\<lambda>v. 0)) a"

subsection \<open>\<^verbatim>\<open>tracks.py\<close>: the instance and the local variables\<close>

text \<open>The tracking parameters that \<^verbatim>\<open>tracks.py\<close> and \<^verbatim>\<open>phase_correlation.py\<close> read.\<close>

record params =
  TRACK_INTERVAL :: int
  FLOW_MARGIN :: real

record Cell_tracks =
  params :: params
  grid_size :: "(real \<times> real \<times> real) option"
  radar_info :: "opaque option"
  last_grid :: "Grid option"
  counter :: "Counter option"
  self_record :: "Record option"
  current_objects :: "objects option"
  tracks :: table
  saved_record :: "Record option"
  saved_counter :: "Counter option"
  saved_objects :: "objects option"

text \<open>\<^verbatim>\<open>Cell_tracks.__init__\<close>, with the default parameters.\<close>

definition new_Cell_tracks :: Cell_tracks where
  "new_Cell_tracks =
     \<lparr>params = \<lparr>TRACK_INTERVAL = 0, FLOW_MARGIN = 20000\<rparr>,
      grid_size = None, radar_info = None, last_grid = None, counter = None,
      self_record = None, current_objects = None, tracks = [],
      saved_record = None, saved_counter = None, saved_objects = None\<rparr>"

text \<open>
  \<^verbatim>\<open>__save\<close> and \<^verbatim>\<open>__load\<close>. The model has value semantics, so the deep copies are
  plain copies.
\<close>

definition save :: "Cell_tracks \<Rightarrow> Cell_tracks" where
  "save self = self\<lparr>saved_record := self_record self,
                    saved_counter := counter self,
                    saved_objects := current_objects self\<rparr>"

definition load :: "Cell_tracks \<Rightarrow> Cell_tracks" where
  "load self = self\<lparr>self_record := saved_record self,
                    counter := saved_counter self,
                    current_objects := saved_objects self\<rparr>"

text \<open>
  The local variables of \<^verbatim>\<open>get_tracks\<close>. \<open>scan2\<close> holds the products of the grid
  \<^verbatim>\<open>grid_obj2\<close>, \<open>scan1\<close> those of \<^verbatim>\<open>grid_obj1\<close> and \<^verbatim>\<open>frame0\<close> (\<open>None\<close> is
  \<^verbatim>\<open>np.nan\<close>), and \<open>locals\<close> the variables that live across iterations:
  \<^verbatim>\<open>newRain\<close>, the accumulation lists, and \<^verbatim>\<open>frame1\<close> and \<^verbatim>\<open>obj_merge\<close> as the
  previous iteration bound them (\<open>None\<close>: not bound yet in this call). The lines
  printed so far are carried with them, in \<open>printed\<close>.

  \<^verbatim>\<open>get_tracks\<close> prints at five places: \<^verbatim>\<open>'Skipping erroneous grid.'\<close> (line 231),
  \<^verbatim>\<open>'Time discontinuity at {}.'\<close> with the time of the Record (line 250),
  \<^verbatim>\<open>'No objects found in scan {}.'\<close> with the scan index of the Record (line 265), and
  the two closing lines (332 and 333); the elapsed time that the last line shows is
  read from the wall clock and is left out.
\<close>

datatype notice =
    Skipping_erroneous_grid
  | Time_discontinuity "int option"
  | No_objects_found int
  | Blank_line
  | Time_elapsed

record scan2 =
  raw2 :: "matrix option"
  raw_rain2 :: matrix
  frame2 :: matrix
  frames2 :: "matrix list"
  cores2 :: opaque
  sclasses2 :: opaque

record scan1 =
  frame0 :: "matrix option"
  raw1 :: "matrix option"
  raw_rain1 :: matrix
  frame1 :: matrix
  frames1 :: "matrix list"
  cores1 :: opaque
  sclasses1 :: opaque

record locals =
  newRain :: bool
  last_frame1 :: "matrix option"
  obj_merge :: "opaque option"
  acc_rain_list :: "matrix list"
  acc_rain_uid_list :: "nat list"
  printed :: "notice list"

text \<open>
  The functions of \<^verbatim>\<open>matching\<close> and \<^verbatim>\<open>objects\<close> that \<^verbatim>\<open>get_tracks\<close> calls: the
  Matcher, the registry initialisation and update, the property extractor, the
  table writer and the two post-processing passes of the spec. They are parameters.
  Each receives the products of the two scans of the iteration in place of the
  separate arrays of the source.
\<close>

record collaborators =
  get_pairs :: "scan1 \<Rightarrow> scan2 \<Rightarrow> shift option \<Rightarrow> objects option \<Rightarrow> Record \<Rightarrow> params
                  \<Rightarrow> opaque \<times> opaque \<times> opaque \<times> opaque"
  init_current_objects :: "scan1 \<Rightarrow> scan2 \<Rightarrow> opaque \<Rightarrow> Counter option \<Rightarrow> real \<Rightarrow> bool
                  \<Rightarrow> objects \<times> Counter"
  update_current_objects :: "scan1 \<Rightarrow> scan2 \<Rightarrow> matrix list \<Rightarrow> nat list \<Rightarrow> opaque
                  \<Rightarrow> objects option \<Rightarrow> Counter option \<Rightarrow> opaque \<Rightarrow> real \<Rightarrow> bool \<Rightarrow> bool
                  \<Rightarrow> objects \<times> Counter \<times> matrix list \<times> nat list"
  get_object_prop :: "scan1 \<Rightarrow> Grid \<Rightarrow> opaque \<Rightarrow> opaque \<Rightarrow> Record \<Rightarrow> params
                  \<Rightarrow> objects option \<Rightarrow> opaque"
  add_uids :: "Record \<Rightarrow> objects option \<Rightarrow> Record"
  write_tracks :: "table \<Rightarrow> Record \<Rightarrow> objects option \<Rightarrow> opaque \<Rightarrow> table"
  post_tracks :: "Cell_tracks \<Rightarrow> Cell_tracks"
  get_system_tracks :: "Cell_tracks \<Rightarrow> Cell_tracks"

subsection \<open>\<^verbatim>\<open>tracks.py\<close>: the call of \<^verbatim>\<open>get_global_shift\<close>\<close>

text \<open>
  A Python call binds its positional arguments to the parameters of the function
  and raises TypeError when their numbers differ. \<^verbatim>\<open>get_global_shift\<close> is defined
  with the two parameters \<^verbatim>\<open>im1\<close> and \<^verbatim>\<open>im2\<close>. The arguments are an array, \<^verbatim>\<open>None\<close>
  or the parameter dictionary; \<^verbatim>\<open>get_global_shift\<close> is modelled for an array \<open>im1\<close>
  and an array or \<^verbatim>\<open>None\<close> for \<open>im2\<close>, and other arguments are given TypeError.
\<close>

datatype pyval = PyNone | PyArray matrix | PyDict params

definition pyval_of :: "matrix option \<Rightarrow> pyval" where
  "pyval_of a = (case a of None \<Rightarrow> PyNone | Some m \<Rightarrow> PyArray m)"

definition call_get_global_shift :: "pyval list \<Rightarrow> event list \<times> (error + shift option)" where
  "call_get_global_shift args =
     (case args of
        [PyArray im1, PyNone] \<Rightarrow> get_global_shift im1 None
      | [PyArray im1, PyArray im2] \<Rightarrow> get_global_shift im1 (Some im2)
      | _ \<Rightarrow> ([], Inl TypeError))"

subsection \<open>\<^verbatim>\<open>tracks.py\<close>: \<^verbatim>\<open>Cell_tracks.get_tracks\<close>\<close>

text \<open>
  Lines 184 to 194: the first call pulls the first grid and creates the Counter and
  the Record; a later call resumes from \<^verbatim>\<open>last_grid\<close>. The result of
  \<^verbatim>\<open>self.tracks.drop(...)\<close> is not assigned: only its KeyError has an effect. The
  result is the instance, \<^verbatim>\<open>grid_obj2\<close> and the grids left in the iterator.
\<close>

definition init_or_resume :: "Cell_tracks \<Rightarrow> Grid list \<Rightarrow> error + (Cell_tracks \<times> Grid \<times> Grid list)" where
  "init_or_resume self grids =
     (case self_record self of
        None \<Rightarrow>
          (case grids of
             [] \<Rightarrow> Inl StopIteration
           | grid_obj2 # rest \<Rightarrow>
               Inr (self\<lparr>grid_size := Some (grid_cell_size grid_obj2),
                         radar_info := Some (grid_radar_info grid_obj2),
                         counter := Some new_Counter,
                         self_record := Some (new_Record grid_obj2)\<rparr>,
                    grid_obj2, rest))
      | Some r \<Rightarrow>
          rbind (drop_rows (tracks self) (scan r + 1)) (\<lambda>dropped.
          case last_grid self of
            None \<Rightarrow> Inl AttributeError
          | Some grid_obj2 \<Rightarrow> Inr (self, grid_obj2, grids)))"

text \<open>
  Lines 201 to 204 and 237 to 238: the products of a grid and the detection frame
  of the tracked level.
\<close>

definition scan2_of :: "params \<Rightarrow> Grid \<Rightarrow> error + scan2" where
  "scan2_of ps g =
     rbind (py_index (grid_frames g) (TRACK_INTERVAL ps)) (\<lambda>f.
     Inr \<lparr>raw2 = Some (grid_raw g), raw_rain2 = grid_raw_rain g, frame2 = f,
          frames2 = grid_frames g, cores2 = grid_cores g, sclasses2 = grid_sclasses g\<rparr>)"

text \<open>
  Lines 207 to 217, the start of an iteration. Reading \<^verbatim>\<open>frame1\<close> before the call
  has bound it raises UnboundLocalError.
\<close>

definition advance :: "locals \<Rightarrow> scan2 \<Rightarrow> error + (scan1 \<times> locals)" where
  "advance loc s2 =
     rbind (if \<not> newRain loc
            then (case last_frame1 loc of None \<Rightarrow> Inl UnboundLocalError | Some f \<Rightarrow> Inr (Some f))
            else Inr None) (\<lambda>f0.
     Inr (\<lparr>frame0 = f0, raw1 = raw2 s2, raw_rain1 = raw_rain2 s2, frame1 = frame2 s2,
           frames1 = frames2 s2, cores1 = cores2 s2, sclasses1 = sclasses2 s2\<rparr>,
          loc\<lparr>last_frame1 := Some (frame2 s2)\<rparr>))"

text \<open>
  Line 226, the test of the skip loop: the previous raw field has a maximum above
  30 and the raw field of the grid pulled is entirely zero.
\<close>

definition artifact :: "matrix option \<Rightarrow> Grid \<Rightarrow> error + bool" where
  "artifact r1 g =
     rbind (case r1 of None \<Rightarrow> Inl TypeError | Some r \<Rightarrow> np_max r) (\<lambda>m1.
     if m1 > 30 then rbind (np_max (grid_raw g)) (\<lambda>m. Inr (m = 0)) else Inr False)"

text \<open>
  Lines 244 to 252, the check for a gap in the record: the notice, \<^verbatim>\<open>newRain\<close> and
  the registry.
\<close>

definition gap_check :: "Record \<Rightarrow> Cell_tracks \<times> locals \<Rightarrow> Cell_tracks \<times> locals" where
  "gap_check r st =
     (case st of (self, loc) \<Rightarrow>
        (case interval r of
           None \<Rightarrow> (self, loc)
         | Some iv \<Rightarrow>
             if seconds iv > 1700
             then (self\<lparr>current_objects := None\<rparr>,
                   loc\<lparr>newRain := True,
                       printed := printed loc @ [Time_discontinuity (time r)]\<rparr>)
             else (self, loc)))"

text \<open>
  Lines 272 to 302: matching, the update of the registry and the rows of the scan,
  given the global shift.
\<close>

definition match_and_write ::
    "collaborators \<Rightarrow> bool \<Rightarrow> bool \<Rightarrow> Grid \<Rightarrow> scan1 \<Rightarrow> scan2 \<Rightarrow> Cell_tracks \<times> locals
       \<Rightarrow> shift option \<Rightarrow> error + (Cell_tracks \<times> locals)" where
  "match_and_write env rain save_rain grid_obj1 s1 s2 st global_shift =
     (case st of (self, loc) \<Rightarrow>
      (case self_record self of None \<Rightarrow> Inl AttributeError | Some r \<Rightarrow>
      (case get_pairs env s1 s2 global_shift (current_objects self) r (params self) of
         (pairs, obj_merge_new, u_shift, v_shift) \<Rightarrow>
      rbind
        (if newRain loc then
           rbind (interval_total_seconds r) (\<lambda>dt.
           case init_current_objects env s1 s2 pairs (counter self) dt rain of
             (objs, cnt) \<Rightarrow>
               Inr (self\<lparr>current_objects := Some objs, counter := Some cnt\<rparr>,
                    loc\<lparr>newRain := False\<rparr>))
         else
           (case obj_merge loc of
              None \<Rightarrow> Inl UnboundLocalError
            | Some om \<Rightarrow>
                rbind (interval_total_seconds r) (\<lambda>dt.
                case update_current_objects env s1 s2 (acc_rain_list loc) (acc_rain_uid_list loc)
                       pairs (current_objects self) (counter self) om dt rain save_rain of
                  (objs, cnt, acc, acc_uid) \<Rightarrow>
                    Inr (self\<lparr>current_objects := Some objs, counter := Some cnt\<rparr>,
                         loc\<lparr>acc_rain_list := acc, acc_rain_uid_list := acc_uid\<rparr>))))
        (\<lambda>(self1, loc1).
           let obj_props = get_object_prop env s1 grid_obj1 u_shift v_shift r (params self1)
                             (current_objects self1);
               r1 = add_uids env r (current_objects self1)
           in Inr (self1\<lparr>self_record := Some r1,
                         tracks := write_tracks env (tracks self1) r1 (current_objects self1)
                                     obj_props\<rparr>,
                   loc1\<lparr>obj_merge := Some obj_merge_new\<rparr>)))))"

text \<open>
  Line 271 and what follows it: \<^verbatim>\<open>get_global_shift(raw1, raw2, self.params)\<close>, a call
  with three arguments.
\<close>

definition flow_and_match ::
    "collaborators \<Rightarrow> bool \<Rightarrow> bool \<Rightarrow> Grid \<Rightarrow> scan1 \<Rightarrow> scan2 \<Rightarrow> Cell_tracks \<times> locals
       \<Rightarrow> error + (Cell_tracks \<times> locals)" where
  "flow_and_match env rain save_rain grid_obj1 s1 s2 st =
     rbind (snd (call_get_global_shift
                   [pyval_of (raw1 s1), pyval_of (raw2 s2), PyDict (params (fst st))]))
       (match_and_write env rain save_rain grid_obj1 s1 s2 st)"

text \<open>
  Lines 263 to 302: the empty-frame skip, or flow estimation and matching. The
  notice of the skip reads \<^verbatim>\<open>self.record.scan\<close>.
\<close>

definition process_scan ::
    "collaborators \<Rightarrow> bool \<Rightarrow> bool \<Rightarrow> Grid \<Rightarrow> scan1 \<Rightarrow> scan2 \<Rightarrow> Cell_tracks \<times> locals
       \<Rightarrow> error + (Cell_tracks \<times> locals)" where
  "process_scan env rain save_rain grid_obj1 s1 s2 st =
     (case st of (self, loc) \<Rightarrow>
      rbind (np_max (frame1 s1)) (\<lambda>m.
      if m = 0 then
        (case self_record self of
           None \<Rightarrow> Inl AttributeError
         | Some r \<Rightarrow>
             Inr (self\<lparr>current_objects := None\<rparr>,
                  loc\<lparr>newRain := True, printed := printed loc @ [No_objects_found (scan r)]\<rparr>))
      else flow_and_match env rain save_rain grid_obj1 s1 s2 (self, loc)))"

text \<open>
  The rest of an iteration once a next grid has been accepted (lines 235 to 252 and
  263 to 302), and the terminal iteration (lines 254 to 302).
\<close>

definition next_scan ::
    "collaborators \<Rightarrow> bool \<Rightarrow> bool \<Rightarrow> Cell_tracks \<times> locals \<Rightarrow> Grid \<Rightarrow> scan1 \<Rightarrow> Grid
       \<Rightarrow> error + (Cell_tracks \<times> locals \<times> scan2)" where
  "next_scan env rain save_rain st grid_obj1 s1 grid_obj2 =
     (case st of (self, loc) \<Rightarrow>
      rbind (scan2_of (params self) grid_obj2) (\<lambda>s2.
      (case self_record self of None \<Rightarrow> Inl AttributeError | Some r \<Rightarrow>
        let r1 = update_scan_and_time r grid_obj1 (Some grid_obj2)
        in rbind (process_scan env rain save_rain grid_obj1 s1 s2
                    (gap_check r1 (self\<lparr>self_record := Some r1\<rparr>, loc)))
             (\<lambda>(self1, loc1). Inr (self1, loc1, s2)))))"

definition last_scan ::
    "collaborators \<Rightarrow> bool \<Rightarrow> bool \<Rightarrow> Cell_tracks \<times> locals \<Rightarrow> Grid \<Rightarrow> scan1 \<Rightarrow> scan2
       \<Rightarrow> error + (Cell_tracks \<times> locals)" where
  "last_scan env rain save_rain st grid_obj1 s1 s2 =
     (case st of (self, loc) \<Rightarrow>
      let self1 = (save self)\<lparr>last_grid := Some grid_obj1\<rparr>
      in (case self_record self1 of None \<Rightarrow> Inl AttributeError | Some r \<Rightarrow>
           process_scan env rain save_rain grid_obj1 s1
             (s2\<lparr>raw2 := None, frame2 := zeros_like (frame1 s1),
                 frames2 := map zeros_like (frames1 s1)\<rparr>)
             (self1\<lparr>self_record := Some (update_scan_and_time r grid_obj1 None)\<rparr>, loc)))"

text \<open>
  The main loop, lines 206 to 303, by recursion on the grids left in the iterator.
  The state is the instance, the variables that live across iterations and the
  products of \<^verbatim>\<open>grid_obj2\<close>. An iteration starts with \<open>advance\<close>; it then pulls
  grids, discarding those that \<open>artifact\<close> accepts; it ends with \<open>last_scan\<close> when
  the iterator is exhausted (and the loop ends), and with \<open>next_scan\<close> otherwise.
  A discarded grid leaves the variables as they were; line 231 prints its notice once
  the grid after it has been pulled. The result is the instance, the variables and
  \<^verbatim>\<open>grid_obj1\<close>.
\<close>

fun scan_loop ::
    "collaborators \<Rightarrow> bool \<Rightarrow> bool \<Rightarrow> Cell_tracks \<times> locals \<times> scan2 \<Rightarrow> Grid \<Rightarrow> Grid list
       \<Rightarrow> error + (Cell_tracks \<times> locals \<times> Grid)" where
  "scan_loop env rain save_rain st grid_obj2 [] =
     (case st of (self, loc, s2) \<Rightarrow>
      rbind (advance loc s2) (\<lambda>(s1, loc1).
      rbind (last_scan env rain save_rain (self, loc1) grid_obj2 s1 s2) (\<lambda>(self1, loc2).
      Inr (self1, loc2, grid_obj2))))"
| "scan_loop env rain save_rain st grid_obj2 (g # grids) =
     (case st of (self, loc, s2) \<Rightarrow>
      rbind (advance loc s2) (\<lambda>(s1, loc1).
      rbind (artifact (raw1 s1) g) (\<lambda>skip.
      if skip then
        scan_loop env rain save_rain
          (self, if grids = [] then loc
                 else loc\<lparr>printed := printed loc @ [Skipping_erroneous_grid]\<rparr>, s2)
          grid_obj2 grids
      else rbind (next_scan env rain save_rain (self, loc1) grid_obj2 s1 g) (\<lambda>st1.
           scan_loop env rain save_rain st1 g grids))))"

text \<open>
  Lines 305 to 334. \<^verbatim>\<open>np.stack\<close> of an empty list raises ValueError; the file that
  \<^verbatim>\<open>to_netcdf\<close> writes is outside the model. The result is the instance and the
  lines printed.
\<close>

definition finish ::
    "collaborators \<Rightarrow> bool \<Rightarrow> Cell_tracks \<times> locals \<Rightarrow> error + (Cell_tracks \<times> notice list)" where
  "finish env save_rain st =
     (case st of (self, loc) \<Rightarrow>
      rbind (if save_rain \<and> acc_rain_list loc = [] then Inl ValueError else Inr ()) (\<lambda>u.
      Inr (load (get_system_tracks env (post_tracks env self)),
           printed loc @ [Blank_line, Time_elapsed])))"

text \<open>
  The method returns \<^verbatim>\<open>None\<close>; what a call does is the instance it leaves and the
  lines it prints. \<open>get_tracks_out\<close> is the two, \<open>get_tracks\<close> the instance.
\<close>

definition get_tracks_out ::
    "collaborators \<Rightarrow> Cell_tracks \<Rightarrow> Grid list \<Rightarrow> bool \<Rightarrow> bool
       \<Rightarrow> error + (Cell_tracks \<times> notice list)" where
  "get_tracks_out env self grids rain save_rain =
     rbind (init_or_resume self grids) (\<lambda>(self1, grid_obj2, rest).
     let loc = \<lparr>newRain = (current_objects self1 = None), last_frame1 = None,
                obj_merge = None, acc_rain_list = [], acc_rain_uid_list = [], printed = []\<rparr>
     in rbind (scan2_of (params self1) grid_obj2) (\<lambda>s2.
        rbind (scan_loop env rain save_rain (self1, loc, s2) grid_obj2 rest)
          (\<lambda>(self2, loc1, grid_obj1). finish env save_rain (self2, loc1))))"

definition get_tracks ::
    "collaborators \<Rightarrow> Cell_tracks \<Rightarrow> Grid list \<Rightarrow> bool \<Rightarrow> bool \<Rightarrow> error + Cell_tracks" where
  "get_tracks env self grids rain save_rain =
     map_sum id fst (get_tracks_out env self grids rain save_rain)"

subsection \<open>Predicates of the statements\<close>

text \<open>A field that is entirely zero.\<close>

definition all_zero :: "matrix \<Rightarrow> bool" where
  "all_zero a \<longleftrightarrow> list_all (list_all (\<lambda>v. v = 0)) a"

text \<open>
  A field whose two-dimensional discrete Fourier transform (\<^verbatim>\<open>np.fft.fft2\<close>) has no
  zero coefficient.
\<close>

definition nonzero_spectrum :: "matrix \<Rightarrow> bool" where
  "nonzero_spectrum F \<longleftrightarrow>
     (case fft2 (map (map complex_of_real) F) of
        Inl e \<Rightarrow> False
      | Inr f \<Rightarrow> list_all (list_all (\<lambda>z. z \<noteq> 0)) f)"

text \<open>
  A valid object extent for a field of shape \<open>dims\<close>: the centre is a position of
  the field, and the radius, the margin and the grid sizes are not negative
  (the grid sizes are positive).
\<close>

definition valid_extent :: "obj_extent \<Rightarrow> nat \<times> nat \<Rightarrow> real \<Rightarrow> real \<times> real \<times> real \<Rightarrow> bool" where
  "valid_extent ext dims margin gs \<longleftrightarrow>
     0 \<le> fst (obj_center ext) \<and> fst (obj_center ext) < real (fst dims) \<and>
     0 \<le> snd (obj_center ext) \<and> snd (obj_center ext) < real (snd dims) \<and>
     0 \<le> obj_radius ext \<and> 0 \<le> margin \<and>
     0 < fst (snd gs) \<and> 0 < snd (snd gs)"



subsection \<open>Inputs of the closed examples\<close>

text \<open>
  A scan of one cell with no signal and a scan of one cell above the detection
  threshold, at a time given in microseconds; and collaborators that return empty
  results and whose post-processing passes leave the instance as it is.
\<close>

definition quiet_scan :: "int \<Rightarrow> Grid" where
  "quiet_scan t =
     \<lparr>grid_time = t, grid_cell_size = (500, 2500, 2500), grid_radar_info = 0,
      grid_raw = [[0]], grid_raw_rain = [[0]], grid_frames = [[[0]]],
      grid_cores = 0, grid_sclasses = 0\<rparr>"

definition busy_scan :: "int \<Rightarrow> Grid" where
  "busy_scan t =
     \<lparr>grid_time = t, grid_cell_size = (500, 2500, 2500), grid_radar_info = 0,
      grid_raw = [[50]], grid_raw_rain = [[0]], grid_frames = [[[1]]],
      grid_cores = 0, grid_sclasses = 0\<rparr>"

definition stub_collaborators :: collaborators where
  "stub_collaborators =
     \<lparr>get_pairs = (\<lambda>s1 s2 g objs r ps. (0, 0, 0, 0)),
      init_current_objects = (\<lambda>s1 s2 pairs cnt dt rain. ([], 0)),
      update_current_objects = (\<lambda>s1 s2 acc acc_uid pairs objs cnt om dt rain save_rain.
                                  ([], 0, acc, acc_uid)),
      get_object_prop = (\<lambda>s1 g u v r ps objs. 0),
      add_uids = (\<lambda>r objs. r),
      write_tracks = (\<lambda>t r objs props. t),
      post_tracks = (\<lambda>self. self),
      get_system_tracks = (\<lambda>self. self)\<rparr>"

section \<open>Properties of the phase correlation\<close>

subsection \<open>Shapes\<close>

lemma is_array_nth: "is_array R C a \<Longrightarrow> i < R \<Longrightarrow> length (a ! i) = C"
  by (auto simp: is_array_def list_all_length)

lemma shape_is_array: "is_array R C a \<Longrightarrow> 0 < R \<Longrightarrow> shape a = (R, C)"
  by (cases a) (auto simp: is_array_def shape_def)

lemma is_array_tabulate:
  "is_array R C (map (\<lambda>i. map (f i) [0..<C]) [0..<R])"
  by (simp add: is_array_def list_all_length)

lemma is_array_map: "is_array R C a \<Longrightarrow> is_array R C (map (map f) a)"
  by (simp add: is_array_def list_all_length)

lemma fft2_array:
  assumes "is_array R C a" "0 < R" "0 < C"
  shows "\<exists>b. fft2 a = Inr b \<and> is_array R C b"
  using assms by (simp add: fft2_def shape_is_array is_array_tabulate)

lemma ifft2_array:
  assumes "is_array R C a" "0 < R" "0 < C"
  shows "\<exists>b. ifft2 a = Inr b \<and> is_array R C b"
  using assms by (simp add: ifft2_def shape_is_array is_array_tabulate)

lemma broadcast_array:
  assumes "is_array R C a" "is_array R C b" "0 < R"
  shows "\<exists>c. broadcast f a b = Inr c \<and> is_array R C c"
  using assms by (auto simp add: broadcast_def shape_is_array is_array_tabulate)

lemma is_array_map2:
  assumes "is_array R C a" "is_array R C b"
  shows "is_array R C (map2 (map2 f) a b)"
  using assms by (auto simp: is_array_def list_all_length)

lemma cross_power_spectrum_array:
  assumes "is_array R C im1" "is_array R C im2" "0 < R" "0 < C"
  shows "\<exists>c. cross_power_spectrum im1 im2 = Inr c \<and> is_array R C c"
proof -
  obtain f1 where f1: "fft2 (map (map complex_of_real) im1) = Inr f1" "is_array R C f1"
    using fft2_array[OF is_array_map[OF assms(1)] assms(3,4)] by blast
  obtain f2 where f2: "fft2 (map (map complex_of_real) im2) = Inr f2" "is_array R C f2"
    using fft2_array[OF is_array_map[OF assms(2)] assms(3,4)] by blast
  obtain c where c: "broadcast (*) f2 (map (map cnj) f1) = Inr c" "is_array R C c"
    using broadcast_array[OF f2(2) is_array_map[OF f1(2)] assms(3)] by blast
  show ?thesis
    unfolding cross_power_spectrum_def
    by (simp add: f1 f2 c Let_def is_array_map2[OF c(2) is_array_map[OF c(2)]])
qed

lemma crosscov_surface_array:
  assumes "is_array R C im1" "is_array R C im2" "0 < R" "0 < C"
  shows "\<exists>c. crosscov_surface im1 im2 = Inr c \<and> is_array R C c"
proof -
  obtain s where s: "cross_power_spectrum im1 im2 = Inr s" "is_array R C s"
    using cross_power_spectrum_array[OF assms] by blast
  obtain c where c: "ifft2 s = Inr c" "is_array R C c"
    using ifft2_array[OF s(2) assms(3,4)] by blast
  show ?thesis unfolding crosscov_surface_def by (simp add: s c is_array_map)
qed

lemma fft_shift_array:
  assumes "is_array R C a" "rd \<le> R" "cd \<le> C"
  shows "is_array R C (fft_shift a rd cd)"
  using assms
  by (auto simp: is_array_def fft_shift_def Let_def list_all_length nth_append min_def)

lemma gaussian_filter_array:
  assumes "is_array R C a" "0 < R"
  shows "is_array R C (gaussian_filter a sigma)"
  using assms by (simp add: gaussian_filter_def shape_is_array Let_def is_array_tabulate)

lemma concat_nonempty:
  assumes "is_array R C a" "0 < R" "0 < C"
  shows "concat a \<noteq> []"
  using assms by (cases a) (auto simp: is_array_def)

lemma np_max_array:
  assumes "is_array R C a" "0 < R" "0 < C"
  shows "np_max a = Inr (Max (set (concat a)))"
proof -
  obtain x xs where xs: "concat a = x # xs"
    using concat_nonempty[OF assms] by (cases "concat a") auto
  have "fold max xs x = Max (set (x # xs))" by (simp only: Max.set_eq_fold)
  then show ?thesis by (simp add: np_max_def xs)
qed

lemma argwhere_first_array:
  assumes "is_array R C a" "0 < R" "0 < C" "v \<in> set (concat a)"
  shows "\<exists>i j. argwhere_first a v = Inr (i, j) \<and> i < R \<and> j < C"
proof -
  obtain r where r: "r \<in> set a" "v \<in> set r" using assms(4) by auto
  then obtain i where i: "i < R" "a ! i = r"
    using assms(1) by (auto simp: in_set_conv_nth is_array_def)
  have "length r = C" using i assms(1) is_array_nth by blast
  then obtain j where j: "j < C" "r ! j = v" using r(2) by (auto simp: in_set_conv_nth)
  let ?ps = "filter (\<lambda>(i, j). a ! i ! j = v) (List.product [0..<R] [0..<C])"
  have "(i, j) \<in> set ?ps" using i j by auto
  then obtain p ps where ps: "?ps = p # ps" by (cases ?ps) auto
  then have "p \<in> set ?ps" by simp
  then have "fst p < R \<and> snd p < C" by auto
  then show ?thesis using ps
    by (cases p) (auto simp add: argwhere_first_def shape_is_array[OF assms(1,2)])
qed

lemma peak_shift_array:
  assumes "is_array R C im1" "is_array R C im2" "0 < R" "0 < C"
  shows "\<exists>s. peak_shift im1 im2 = Inr s"
proof -
  obtain c where c: "crosscov_surface im1 im2 = Inr c" "is_array R C c"
    using crosscov_surface_array[OF assms] by blast
  define sh where "sh = fft_shift c ((R + 1) div 2) ((C + 1) div 2)"
  have sh: "is_array R C sh" unfolding sh_def by (rule fft_shift_array[OF c(2)]) auto
  define g where "g = gaussian_filter sh (1 / 8 * real (min (fst (shape sh)) (snd (shape sh))))"
  have g: "is_array R C g" unfolding g_def by (rule gaussian_filter_array[OF sh assms(3)])
  define v where "v = Max (set (concat g))"
  have "v \<in> set (concat g)"
    unfolding v_def using concat_nonempty[OF g assms(3,4)] by (intro Max_in) auto
  then obtain i j where ij: "argwhere_first g v = Inr (i, j)"
    using argwhere_first_array[OF g assms(3,4)] by blast
  have cc: "fft_crosscov im1 im2 ((R + 1) div 2) ((C + 1) div 2) = Inr sh"
    by (simp add: fft_crosscov_def c sh_def)
  have "peak_shift im1 im2 =
      rbind (np_max g) (\<lambda>peak. rbind (argwhere_first g peak) (\<lambda>(pr, pc).
         Inr (int pr - (int R - int ((R + 1) div 2)), int pc - (int C - int ((C + 1) div 2)))))"
    unfolding peak_shift_def shape_is_array[OF assms(1,3)] Let_def prod.case cc rbind.simps g_def
    by (rule refl)
  moreover have "np_max g = Inr v"
    unfolding v_def by (rule np_max_array[OF g assms(3,4)])
  ultimately show ?thesis by (simp add: ij)
qed

lemma fft_shift_nth:
  assumes "is_array R C a" "rd \<le> R" "cd \<le> C" "i < R" "j < C"
  shows "fft_shift a rd cd ! ((i + (R - rd)) mod R) ! ((j + (C - cd)) mod C) = a ! i ! j"
proof -
  define i' where "i' = (i + (R - rd)) mod R"
  define j' where "j' = (j + (C - cd)) mod C"
  have i': "i' = (if i < rd then i + (R - rd) else i - rd)"
    using assms unfolding i'_def by (auto simp: mod_if not_less)
  have j': "j' = (if j < cd then j + (C - cd) else j - cd)"
    using assms unfolding j'_def by (auto simp: mod_if not_less)
  have "fft_shift a rd cd ! i' = drop cd (a ! i) @ take cd (a ! i)"
    using assms i' by (auto simp: is_array_def fft_shift_def Let_def nth_append min_def)
  moreover have "length (a ! i) = C" using assms is_array_nth by blast
  ultimately show ?thesis unfolding i'_def[symmetric] j'_def[symmetric]
    using assms j' by (auto simp: nth_append)
qed

subsection \<open>The quadrant swap\<close>

text \<open>
  C8, as the claim states it, fails: \<^verbatim>\<open>fft_shift\<close> with the pivot
  \<open>(rd, cd) = ceil(dims / 2)\<close> does not put the entry of index \<open>(0, 0)\<close> at the
  index \<open>(rd, cd)\<close> when a dimension is odd. For a 3 by 3 array the pivot is
  \<open>(2, 2)\<close>; the entry of index \<open>(0, 0)\<close> is found at \<open>(1, 1)\<close>, and the entry at
  the pivot is the one that was at \<open>(1, 1)\<close>.
\<close>

theorem fft_shift_pivot_counterexample:
  "(3 + 1) div 2 = (2::nat)
   \<and> fft_shift [[1, 2, 3], [4, 5, 6], [7, 8, 9::real]] 2 2 ! 2 ! 2
       \<noteq> [[1, 2, 3], [4, 5, 6], [7, 8, 9::real]] ! 0 ! 0
   \<and> fft_shift [[1, 2, 3], [4, 5, 6], [7, 8, 9::real]] 2 2 = [[9, 7, 8], [3, 1, 2], [6, 4, 5]]"
  by (simp add: fft_shift_def)

text \<open>
  C8, amended: for equal-shaped, non-empty fields of \<open>R\<close> rows and \<open>C\<close> columns and
  the pivot \<open>(rd, cd) = (ceil (R / 2), ceil (C / 2))\<close>, \<^verbatim>\<open>fft_crosscov\<close> returns a
  surface of the shape of the inputs, and the zero-lag value (index \<open>(0, 0)\<close> of the
  surface before the swap) is at the index \<open>(R - rd, C - cd) = (R div 2, C div 2)\<close>
  after it. That index is the pivot exactly when \<open>R\<close> and \<open>C\<close> are even. It is the
  offset that \<^verbatim>\<open>fft_flowvectors\<close> subtracts from the peak.
\<close>

theorem fft_crosscov_zero_lag:
  assumes "is_array R C im1" "is_array R C im2" "0 < R" "0 < C"
  shows "\<exists>raw surf.
           crosscov_surface im1 im2 = Inr raw
         \<and> fft_crosscov im1 im2 ((R + 1) div 2) ((C + 1) div 2) = Inr surf
         \<and> is_array R C surf
         \<and> surf ! (R div 2) ! (C div 2) = raw ! 0 ! 0
         \<and> R div 2 = R - (R + 1) div 2 \<and> C div 2 = C - (C + 1) div 2
         \<and> ((R div 2, C div 2) = ((R + 1) div 2, (C + 1) div 2) \<longleftrightarrow> even R \<and> even C)"
proof -
  obtain raw where raw: "crosscov_surface im1 im2 = Inr raw" "is_array R C raw"
    using crosscov_surface_array[OF assms] by blast
  let ?rd = "(R + 1) div 2" and ?cd = "(C + 1) div 2"
  have le: "?rd \<le> R" "?cd \<le> C" using assms(3,4) by auto
  have "fft_shift raw ?rd ?cd ! ((0 + (R - ?rd)) mod R) ! ((0 + (C - ?cd)) mod C) = raw ! 0 ! 0"
    by (rule fft_shift_nth[OF raw(2) le assms(3,4)])
  moreover have "(0 + (R - ?rd)) mod R = R div 2" "(0 + (C - ?cd)) mod C = C div 2"
    using assms(3,4) by auto
  ultimately have "fft_shift raw ?rd ?cd ! (R div 2) ! (C div 2) = raw ! 0 ! 0" by simp
  moreover have "fft_crosscov im1 im2 ?rd ?cd = Inr (fft_shift raw ?rd ?cd)"
    by (simp add: fft_crosscov_def raw)
  moreover have "is_array R C (fft_shift raw ?rd ?cd)"
    by (rule fft_shift_array[OF raw(2) le])
  moreover have "R div 2 = R - ?rd" "C div 2 = C - ?cd" by auto
  moreover have "(R div 2, C div 2) = (?rd, ?cd) \<longleftrightarrow> even R \<and> even C"
    by (simp add: Suc_div_eq_add3_div) presburger
  ultimately show ?thesis using raw(1) by blast
qed

theorem fft_crosscov_zero_lag_witness:
  "is_array 1 2 [[1, 1::real]] \<and> (0::nat) < 1 \<and> (0::nat) < 2
   \<and> (\<exists>raw surf.
           crosscov_surface [[1, 1]] [[1, 1]] = Inr raw
         \<and> fft_crosscov [[1, 1]] [[1, 1]] ((1 + 1) div 2) ((2 + 1) div 2) = Inr surf
         \<and> is_array 1 2 surf
         \<and> surf ! (1 div 2) ! (2 div 2) = raw ! 0 ! 0)"
proof -
  have a: "is_array 1 2 [[1, 1::real]]" by (simp add: is_array_def)
  show ?thesis
    using a fft_crosscov_zero_lag[OF a a] by auto
qed

subsection \<open>The bounds of the flow region\<close>

lemma flow_region_bounds_clipped:
  assumes "flow_region_bounds ext (R, C) margin gs = (row_lb, row_ub, col_lb, col_ub)"
  shows "0 \<le> row_lb" "row_ub \<le> int R" "0 \<le> col_lb" "int C \<le> col_ub"
  using assms by (auto simp: flow_region_bounds_def Let_def)

text \<open>
  C1: the column upper bound is clipped with a maximum where the row upper bound is
  clipped with a minimum, so it is never below the number of columns and exceeds it
  whenever the unclipped bound does. For an object of centre \<open>(5, 5)\<close> and radius 2 in
  a 10 by 10 field, with the margin of 20000 m on a grid of 2500 m (8 cells), the
  bounds are rows 0 to 10 and columns 0 to 15.
\<close>

theorem flow_region_bounds_col_ub_exceeds:
  "flow_region_bounds \<lparr>obj_center = (5, 5), obj_radius = 2\<rparr> (10, 10) 20000 (500, 2500, 2500)
     = (0, 10, 0, 15)"
  by (simp add: flow_region_bounds_def np_int_def Let_def)

subsection \<open>The Gaussian filter on a uniform surface\<close>

lemma sum_list_div: "sum_list (map (\<lambda>p. p / s) xs) = sum_list xs / (s::real)"
  by (induction xs) (simp_all add: add_divide_distrib)

lemma kernel_sum:
  "sum_list (gaussian_kernel1d sigma lw) = 1"
proof -
  let ?f = "\<lambda>k. exp (- 0.5 / (sigma * sigma) * (real k - real lw)\<^sup>2)"
  let ?phi = "map ?f [0..<2 * lw + 1]"
  have "sum_list ?phi = sum ?f {0..<2 * lw + 1}"
    by (simp add: interv_sum_list_conv_sum_set_nat)
  moreover have "0 < sum ?f {0..<2 * lw + 1}"
    by (rule sum_pos) auto
  ultimately have ne: "sum_list ?phi \<noteq> 0" by simp
  have "sum_list (map (\<lambda>p. p / sum_list ?phi) ?phi) = sum_list ?phi / sum_list ?phi"
    by (rule sum_list_div)
  thus ?thesis using ne by (simp add: gaussian_kernel1d_def Let_def)
qed

lemma kernel_length: "length (gaussian_kernel1d sigma lw) = 2 * lw + 1"
  by (simp add: gaussian_kernel1d_def Let_def)

lemma weights_sum:
  "(\<Sum>k<2 * lw + 1. rev (gaussian_kernel1d sigma lw) ! k) = 1"
proof -
  have "(\<Sum>k<2 * lw + 1. rev (gaussian_kernel1d sigma lw) ! k)
        = sum_list (rev (gaussian_kernel1d sigma lw))"
    using kernel_length[of sigma lw]
    by (simp add: sum_list_sum_nth atLeast0LessThan)
  thus ?thesis by (simp add: kernel_sum)
qed

lemma reflect_index_less: "0 < n \<Longrightarrow> reflect_index n i < n"
  unfolding reflect_index_def Let_def
  by (auto simp: nat_less_iff)

lemma gaussian_filter_const:
  assumes "0 < R" "0 < C"
  shows "gaussian_filter (replicate R (replicate C c)) sigma = replicate R (replicate C c)"
proof -
  have sh: "shape (replicate R (replicate C c)) = (R, C)"
    using assms by (cases R) (auto simp: shape_def)
  define lw where "lw = nat (np_int (4 * sigma + 0.5))"
  define n where "n = 2 * lw + 1"
  define w where "w = rev (gaussian_kernel1d sigma lw)"
  have ws: "(\<Sum>k<n. w ! k) = 1" unfolding w_def n_def by (rule weights_sum)
  have wc: "(\<Sum>k<n. w ! k * c) = c"
    by (simp only: sum_distrib_right[symmetric] ws mult_1)
  have a0: "map (\<lambda>i. map (\<lambda>j. (\<Sum>k<n. w ! k *
              replicate R (replicate C c) ! reflect_index R (int i + int k - int lw) ! j))
              [0..<C]) [0..<R] = replicate R (replicate C c)"
    using assms by (auto simp: list_eq_iff_nth_eq reflect_index_less wc)
  have a1: "map (\<lambda>i. map (\<lambda>j. (\<Sum>k<n. w ! k *
              replicate R (replicate C c) ! i ! reflect_index C (int j + int k - int lw)))
              [0..<C]) [0..<R] = replicate R (replicate C c)"
    using assms by (auto simp: list_eq_iff_nth_eq reflect_index_less wc)
  show ?thesis
    unfolding gaussian_filter_def sh Let_def prod.case lw_def[symmetric] n_def[symmetric]
      w_def[symmetric] a0 a1
    by (rule refl)
qed

subsection \<open>A uniform field of one row and two columns\<close>

lemma cis_minus_pi: "cis (- pi) = -1" by (simp add: complex_eq_iff)

lemma shape_row2: "shape [[a, b]] = (1, 2)" by (simp add: shape_def)

lemma fft2_ones: "fft2 [[1, 1]] = Inr [[2, 0]]"
  by (simp add: fft2_def shape_row2 lessThan_Suc numeral_2_eq_2 cis_minus_pi)

lemma cross_power_spectrum_ones: "cross_power_spectrum [[1, 1]] [[1, 1]] = Inr [[1, 0]]"
  using fft2_ones by (simp add: cross_power_spectrum_def broadcast_def shape_row2 Let_def numeral_2_eq_2)

lemma ifft2_unit: "ifft2 [[1, 0]] = Inr [[1/2, 1/2]]"
  by (simp add: ifft2_def shape_row2 lessThan_Suc numeral_2_eq_2)

lemma crosscov_surface_ones: "crosscov_surface [[1, 1]] [[1, 1]] = Inr [[1/2, 1/2]]"
  by (simp add: crosscov_surface_def cross_power_spectrum_ones ifft2_unit)

lemma fft_crosscov_ones: "fft_crosscov [[1, 1]] [[1, 1]] (Suc 0) (Suc 0) = Inr [[1/2, 1/2]]"
  by (simp add: fft_crosscov_def crosscov_surface_ones fft_shift_def)

lemma gaussian_filter_halves: "gaussian_filter [[1/2, 1/2]] sigma = [[1/2, 1/2]]"
  using gaussian_filter_const[of 1 2 "1/2" sigma] by (simp add: numeral_2_eq_2)

lemma peak_shift_ones: "peak_shift [[1, 1]] [[1, 1]] = Inr (0, -1)"
  by (simp add: peak_shift_def shape_row2 fft_crosscov_ones gaussian_filter_halves Let_def np_max_def argwhere_first_def upt_conv_Cons)

subsection \<open>The breakpoint\<close>

text \<open>
  C10: whenever the inputs pass the no-signal gate (global mode, or both inputs have
  a non-zero maximum), \<^verbatim>\<open>fft_flowvectors\<close> enters the debugger before it computes
  the shift, whether or not that computation succeeds; so every shift it returns
  comes with the debugger event, and the early return of \<^verbatim>\<open>None\<close> is the only
  result without it.
\<close>

theorem fft_flowvectors_enters_debugger:
  "((global_shift \<or> no_signal im1 im2 = Inr False)
      \<longrightarrow> fft_flowvectors im1 im2 global_shift
            = ([Pdb_set_trace], rbind (peak_shift im1 im2) (\<lambda>pshift. Inr (Some pshift))))
   \<and> (\<forall>pshift. snd (fft_flowvectors im1 im2 global_shift) = Inr (Some pshift)
        \<longrightarrow> fst (fft_flowvectors im1 im2 global_shift) = [Pdb_set_trace])"
  by (cases "no_signal im1 im2")
     (auto simp: fft_flowvectors_def split: bool.splits)

theorem fft_flowvectors_enters_debugger_witness:
  "no_signal [[1, 1]] [[1, 1]] = Inr False
   \<and> fft_flowvectors [[1, 1]] [[1, 1]] False = ([Pdb_set_trace], Inr (Some (0, - 1)))"
  using fft_flowvectors_enters_debugger[of False "[[1, 1]]" "[[1, 1]]"] peak_shift_ones
  by (simp add: no_signal_def np_max_def)

subsection \<open>An all-zero second field\<close>

lemma all_zero_replicate:
  assumes "is_array R C a" "all_zero a"
  shows "a = replicate R (replicate C 0)"
  using assms
  by (auto simp: is_array_def all_zero_def list_all_length list_eq_iff_nth_eq)

lemma shape_replicate: "0 < R \<Longrightarrow> shape (replicate R (replicate C c)) = (R, C)"
  by (cases R) (auto simp: shape_def)

lemma tabulate_const:
  "(\<And>i j. i < R \<Longrightarrow> j < C \<Longrightarrow> f i j = c)
    \<Longrightarrow> map (\<lambda>i. map (f i) [0..<C]) [0..<R] = replicate R (replicate C c)"
  by (auto simp: list_eq_iff_nth_eq)

lemma fft2_zeros:
  assumes "0 < R" "0 < C"
  shows "fft2 (replicate R (replicate C 0)) = Inr (replicate R (replicate C 0))"
  using assms by (simp add: fft2_def shape_replicate tabulate_const)

lemma ifft2_zeros:
  assumes "0 < R" "0 < C"
  shows "ifft2 (replicate R (replicate C 0)) = Inr (replicate R (replicate C 0))"
  using assms by (simp add: ifft2_def shape_replicate tabulate_const)

lemma broadcast_zeros:
  assumes "is_array R C b" "0 < R" "0 < C"
  shows "broadcast (*) (replicate R (replicate C (0::complex))) b = Inr (replicate R (replicate C 0))"
  using assms
  by (auto simp: broadcast_def shape_replicate shape_is_array tabulate_const)

lemma crosscov_surface_zeros:
  assumes "is_array R C im1" "0 < R" "0 < C"
  shows "crosscov_surface im1 (replicate R (replicate C 0)) = Inr (replicate R (replicate C 0))"
proof -
  obtain f1 where f1: "fft2 (map (map complex_of_real) im1) = Inr f1" "is_array R C f1"
    using fft2_array[OF is_array_map[OF assms(1)] assms(2,3)] by blast
  have b: "broadcast (*) (replicate R (replicate C 0)) (map (map cnj) f1)
           = Inr (replicate R (replicate C 0))"
    by (rule broadcast_zeros[OF is_array_map[OF f1(2)] assms(2,3)])
  have "cross_power_spectrum im1 (replicate R (replicate C 0)) = Inr (replicate R (replicate C 0))"
    unfolding cross_power_spectrum_def
    by (simp add: f1 fft2_zeros[OF assms(2,3)] b Let_def)
  then show ?thesis
    by (simp add: crosscov_surface_def ifft2_zeros[OF assms(2,3)])
qed

lemma fft_shift_const:
  assumes "rd \<le> R" "cd \<le> C"
  shows "fft_shift (replicate R (replicate C c)) rd cd = replicate R (replicate C c)"
  using assms
  by (auto simp: fft_shift_def Let_def list_eq_iff_nth_eq nth_append min_def)

lemma np_max_const:
  assumes "0 < R" "0 < C"
  shows "np_max (replicate R (replicate C c)) = Inr c"
proof -
  have arr: "is_array R C (replicate R (replicate C c))"
    by (simp add: is_array_def list_all_length)
  have "set (concat (replicate R (replicate C c))) = {c}"
    using assms by auto
  then show ?thesis by (simp only: np_max_array[OF arr assms] Max_singleton)
qed

lemma argwhere_first_const:
  assumes "0 < R" "0 < C"
  shows "argwhere_first (replicate R (replicate C c)) c = Inr (0, 0)"
proof -
  have "filter (\<lambda>(i, j). replicate R (replicate C c) ! i ! j = c) (List.product [0..<R] [0..<C])
        = List.product [0..<R] [0..<C]"
    by (rule filter_True) auto
  moreover obtain ps where "List.product [0..<R] [0..<C] = (0, 0) # ps"
    using assms by (simp add: upt_conv_Cons)
  ultimately show ?thesis
    using assms by (simp add: argwhere_first_def shape_replicate)
qed

lemma peak_shift_zeros:
  assumes "is_array R C im1" "0 < R" "0 < C"
  shows "peak_shift im1 (replicate R (replicate C 0)) = Inr (- int (R div 2), - int (C div 2))"
proof -
  have le: "(R + 1) div 2 \<le> R" "(C + 1) div 2 \<le> C" using assms by auto
  have cc: "fft_crosscov im1 (replicate R (replicate C 0)) ((R + 1) div 2) ((C + 1) div 2)
            = Inr (replicate R (replicate C 0))"
    by (simp only: fft_crosscov_def crosscov_surface_zeros[OF assms] rbind.simps
          fft_shift_const[OF le])
  have "peak_shift im1 (replicate R (replicate C 0))
        = Inr (int 0 - (int R - int ((R + 1) div 2)), int 0 - (int C - int ((C + 1) div 2)))"
    unfolding peak_shift_def shape_is_array[OF assms(1,2)] Let_def prod.case cc rbind.simps
      gaussian_filter_const[OF assms(2,3)] np_max_const[OF assms(2,3)]
      argwhere_first_const[OF assms(2,3)]
    by (rule refl)
  moreover have "int R - int ((R + 1) div 2) = int (R div 2)"
      "int C - int ((C + 1) div 2) = int (C div 2)" by auto
  ultimately show ?thesis by simp
qed

subsection \<open>The flow region of a valid extent\<close>

lemma slice_index_le: "slice_index n i \<le> n"
  by (auto simp: slice_index_def)

lemma length_py_slice:
  "length (py_slice xs a b) = slice_index (length xs) b - slice_index (length xs) a"
  using slice_index_le[of "length xs" b] by (auto simp: py_slice_def Let_def)

lemma set_py_slice: "set (py_slice xs a b) \<subseteq> set xs"
  unfolding py_slice_def Let_def
  by (meson set_take_subset set_drop_subset subset_trans)

lemma flow_region_array:
  assumes "is_array R C img"
  shows "is_array (slice_index R (ru + 1) - slice_index R rl)
                  (slice_index C (cu + 1) - slice_index C cl)
                  (flow_region img (rl, ru, cl, cu))"
proof -
  have "length r = C" if "r \<in> set (py_slice img rl (ru + 1))" for r
    using that set_py_slice[of img rl "ru + 1"] assms by (auto simp: is_array_def list_all_iff)
  then show ?thesis
    using assms by (auto simp: flow_region_def is_array_def list_all_iff length_py_slice)
qed

lemma np_int_nonneg: "0 \<le> x \<Longrightarrow> np_int x = \<lfloor>x\<rfloor>"
  by (simp add: np_int_def)

lemma np_int_le_floor:
  assumes "0 \<le> c" "x \<le> c"
  shows "max (np_int x) 0 \<le> \<lfloor>c\<rfloor>"
proof (cases "0 \<le> x")
  case True
  then show ?thesis using assms by (simp add: np_int_def floor_mono)
next
  case False
  then have "\<lceil>x\<rceil> \<le> 0" by simp
  then show ?thesis using assms False by (simp add: np_int_def)
qed

lemma valid_extent_bounds:
  assumes "valid_extent ext (R, C) margin gs"
      and "flow_region_bounds ext (R, C) margin gs = (rl, ru, cl, cu)"
  shows "0 \<le> rl" "rl < int R" "rl \<le> ru" "0 \<le> cl" "cl < int C" "int C \<le> cu"
proof -
  let ?cr = "fst (obj_center ext)" and ?cc = "snd (obj_center ext)"
  let ?mr = "margin / fst (snd gs)" and ?mc = "margin / snd (snd gs)"
  from assms(1) have v: "0 \<le> ?cr" "?cr < real R" "0 \<le> ?cc" "?cc < real C"
     "0 \<le> obj_radius ext" "0 \<le> ?mr" "0 \<le> ?mc"
    by (auto simp: valid_extent_def)
  have fr: "\<lfloor>?cr\<rfloor> < int R" "\<lfloor>?cc\<rfloor> < int C" using v by (auto simp: floor_less_iff)
  from assms(2) have rl: "rl = max (np_int (?cr - obj_radius ext - ?mr)) 0"
    and ru: "ru = min (np_int (?cr + obj_radius ext + ?mr)) (int R)"
    and cl: "cl = max (np_int (?cc - obj_radius ext - ?mc)) 0"
    and cu: "cu = max (np_int (?cc + obj_radius ext + ?mc)) (int C)"
    by (auto simp: flow_region_bounds_def Let_def)
  have rl_le: "rl \<le> \<lfloor>?cr\<rfloor>" unfolding rl using v by (intro np_int_le_floor) auto
  have cl_le: "cl \<le> \<lfloor>?cc\<rfloor>" unfolding cl using v by (intro np_int_le_floor) auto
  have "\<lfloor>?cr\<rfloor> \<le> np_int (?cr + obj_radius ext + ?mr)"
    using v by (simp add: np_int_nonneg floor_mono)
  then have "\<lfloor>?cr\<rfloor> \<le> ru" unfolding ru using fr by simp
  then show "rl \<le> ru" using rl_le by simp
  show "0 \<le> rl" "0 \<le> cl" "int C \<le> cu" unfolding rl cl cu by simp_all
  show "rl < int R" "cl < int C" using rl_le cl_le fr by simp_all
qed

lemma flow_region_nonempty:
  assumes "valid_extent ext (R, C) margin gs" "is_array R C img"
  shows "\<exists>R' C'. 0 < R' \<and> 0 < C' \<and> (\<forall>img'. is_array R C img' \<longrightarrow>
            is_array R' C' (flow_region img' (flow_region_bounds ext (R, C) margin gs)))"
proof -
  obtain rl ru cl cu where b: "flow_region_bounds ext (R, C) margin gs = (rl, ru, cl, cu)"
    by (metis prod_cases4)
  note vb = valid_extent_bounds[OF assms(1) b]
  have "slice_index R rl < slice_index R (ru + 1)"
    using vb by (auto simp: slice_index_def)
  moreover have "slice_index C cl < slice_index C (cu + 1)"
    using vb by (auto simp: slice_index_def)
  ultimately show ?thesis
    unfolding b using flow_region_array
    by (intro exI[of _ "slice_index R (ru + 1) - slice_index R rl"]
              exI[of _ "slice_index C (cu + 1) - slice_index C cl"]) auto
qed

lemma is_array_binarize: "is_array R C a \<Longrightarrow> is_array R C (binarize a)"
  by (simp add: binarize_def is_array_map)

lemma concat_binarize:
  "concat (binarize a) = map (\<lambda>v. if v \<noteq> 0 then 1 else v) (concat a)"
  by (simp add: binarize_def map_concat)

lemma all_zero_concat: "all_zero a \<longleftrightarrow> (\<forall>v \<in> set (concat a). v = 0)"
  by (simp add: all_zero_def list_all_iff)

lemma all_zero_binarize: "all_zero (binarize a) \<longleftrightarrow> all_zero a"
proof -
  have "(\<forall>v \<in> set (map (\<lambda>v::real. if v \<noteq> 0 then 1 else v) xs). v = 0) \<longleftrightarrow> (\<forall>v \<in> set xs. v = 0)"
    for xs by (induction xs) auto
  then show ?thesis unfolding all_zero_concat concat_binarize by blast
qed

lemma np_max_binarize:
  assumes "is_array R C a" "0 < R" "0 < C"
  shows "np_max (binarize a) = Inr (if all_zero a then 0 else 1)"
proof -
  define S where "S = set (concat (binarize a))"
  have S: "S = (\<lambda>v. if v \<noteq> 0 then 1 else v) ` set (concat a)"
    unfolding S_def concat_binarize by (rule set_map)
  have ne: "S \<noteq> {}"
    unfolding S_def
    using concat_nonempty[OF is_array_binarize[OF assms(1)] assms(2,3)] by (simp only: set_empty not_False_eq_True)
  have fin: "finite S" unfolding S_def by (rule finite_set)
  have "Max S = (if all_zero a then 0 else 1)"
  proof (cases "all_zero a")
    case True
    then have "S \<subseteq> {0}" unfolding S all_zero_concat by auto
    with ne have "S = {0}" by (metis subset_singleton_iff)
    then show ?thesis using True by (simp only: Max_singleton if_True)
  next
    case False
    then obtain v where v: "v \<in> set (concat a)" "v \<noteq> 0" unfolding all_zero_concat by blast
    then have "1 \<in> S" unfolding S by (force simp: image_iff)
    moreover have "x \<le> 1" if "x \<in> S" for x using that unfolding S by (auto split: if_splits)
    ultimately have "Max S = 1" using fin by (intro Max_eqI) auto
    then show ?thesis using False by simp
  qed
  then show ?thesis
    unfolding S_def by (simp only: np_max_array[OF is_array_binarize[OF assms(1)] assms(2,3)])
qed

lemma fft_flowvectors_local:
  assumes "is_array R C a" "is_array R C b" "0 < R" "0 < C"
  shows "\<exists>s. fft_flowvectors (binarize a) (binarize b) False
          = (if all_zero a \<or> all_zero b then ([], Inr None) else ([Pdb_set_trace], Inr (Some s)))"
proof -
  obtain s where s: "peak_shift (binarize a) (binarize b) = Inr s"
    using peak_shift_array[OF is_array_binarize[OF assms(1)] is_array_binarize[OF assms(2)] assms(3,4)]
    by blast
  have "no_signal (binarize a) (binarize b) = Inr (all_zero a \<or> all_zero b)"
    by (simp add: no_signal_def np_max_binarize[OF assms(1,3,4)] np_max_binarize[OF assms(2,3,4)])
  then show ?thesis by (auto simp: fft_flowvectors_def s)
qed

lemma all_zero_flow_region:
  assumes "all_zero img"
  shows "all_zero (flow_region img b)"
proof -
  obtain rl ru cl cu where b: "b = (rl, ru, cl, cu)" by (metis prod_cases4)
  have "v = 0" if "r \<in> set (py_slice img rl (ru + 1))" "v \<in> set (py_slice r cl (cu + 1))" for r v
  proof -
    have "r \<in> set img" using that(1) set_py_slice[of img rl "ru + 1"] by auto
    moreover have "v \<in> set r" using that(2) set_py_slice[of r cl "cu + 1"] by auto
    ultimately show ?thesis using assms by (auto simp: all_zero_def list_all_iff)
  qed
  then show ?thesis
    unfolding b all_zero_def flow_region_def list_all_iff by auto
qed

lemma valid_extent_pos:
  assumes "valid_extent ext (R, C) margin gs"
  shows "0 < R" "0 < C" "fst (snd gs) \<noteq> 0" "snd (snd gs) \<noteq> 0"
  using assms by (auto simp: valid_extent_def intro: gr0I)

lemma get_ambient_flow_gate:
  assumes "is_array R C fieldA" "is_array R C fieldB" "valid_extent ext (R, C) margin gs"
  shows "\<exists>s. get_ambient_flow ext fieldA fieldB margin gs =
           (if all_zero (binarize (flow_region fieldA (flow_region_bounds ext (R, C) margin gs)))
             \<or> all_zero (binarize (flow_region fieldB (flow_region_bounds ext (R, C) margin gs)))
            then ([], Inr None) else ([Pdb_set_trace], Inr (Some s)))"
proof -
  note pos = valid_extent_pos[OF assms(3)]
  let ?b = "flow_region_bounds ext (R, C) margin gs"
  obtain R' C' where w: "0 < R'" "0 < C'"
      "\<And>img'. is_array R C img' \<Longrightarrow> is_array R' C' (flow_region img' ?b)"
    using flow_region_nonempty[OF assms(3,1)] by blast
  obtain s where "fft_flowvectors (binarize (flow_region fieldA ?b)) (binarize (flow_region fieldB ?b)) False
      = (if all_zero (flow_region fieldA ?b) \<or> all_zero (flow_region fieldB ?b)
         then ([], Inr None) else ([Pdb_set_trace], Inr (Some s)))"
    using fft_flowvectors_local[OF w(3)[OF assms(1)] w(3)[OF assms(2)] w(1,2)] by blast
  then show ?thesis
    using pos
    by (intro exI[of _ s])
       (simp add: get_ambient_flow_def shape_is_array[OF assms(1) pos(1)] Let_def all_zero_binarize)
qed

subsection \<open>The no-signal gate\<close>

text \<open>
  C7: for equal-shaped fields and a valid object extent,
  \<^item> when \<open>fieldB\<close> is entirely zero, \<^verbatim>\<open>get_global_shift\<close> returns a shift and no
    error (the degenerate value \<open>(- (R div 2), - (C div 2))\<close>: the surface is flat
    and its first maximum is at index \<open>(0, 0)\<close>), and \<^verbatim>\<open>get_ambient_flow\<close> on the
    same inputs returns \<^verbatim>\<open>None\<close>;
  \<^item> \<^verbatim>\<open>get_global_shift\<close> returns a shift for every pair of fields;
  \<^item> the result of \<^verbatim>\<open>get_ambient_flow\<close> is \<^verbatim>\<open>None\<close> exactly when at least one of
    the two binarized windows is entirely zero.
  On the paths that compute a shift the debugger is entered first (the trace), and
  execution resumes.
\<close>

theorem no_signal_global_and_local:
  assumes "is_array R C fieldA" "is_array R C fieldB" "valid_extent ext (R, C) margin gs"
  shows "(all_zero fieldB \<longrightarrow>
            get_global_shift fieldA (Some fieldB)
              = ([Pdb_set_trace], Inr (Some (- int (R div 2), - int (C div 2))))
          \<and> get_ambient_flow ext fieldA fieldB margin gs = ([], Inr None))
       \<and> (\<exists>s. get_global_shift fieldA (Some fieldB) = ([Pdb_set_trace], Inr (Some s)))
       \<and> (snd (get_ambient_flow ext fieldA fieldB margin gs) = Inr None \<longleftrightarrow>
            all_zero (binarize (flow_region fieldA (flow_region_bounds ext (R, C) margin gs)))
          \<or> all_zero (binarize (flow_region fieldB (flow_region_bounds ext (R, C) margin gs))))"
proof -
  note pos = valid_extent_pos[OF assms(3)]
  let ?b = "flow_region_bounds ext (R, C) margin gs"
  obtain s where s: "get_ambient_flow ext fieldA fieldB margin gs =
           (if all_zero (binarize (flow_region fieldA ?b)) \<or> all_zero (binarize (flow_region fieldB ?b))
            then ([], Inr None) else ([Pdb_set_trace], Inr (Some s)))"
    using get_ambient_flow_gate[OF assms] by blast
  have iff: "snd (get_ambient_flow ext fieldA fieldB margin gs) = Inr None \<longleftrightarrow>
            all_zero (binarize (flow_region fieldA ?b)) \<or> all_zero (binarize (flow_region fieldB ?b))"
    unfolding s by simp
  obtain g where g: "peak_shift fieldA fieldB = Inr g"
    using peak_shift_array[OF assms(1,2) pos(1,2)] by blast
  have glob: "get_global_shift fieldA (Some fieldB) = ([Pdb_set_trace], Inr (Some g))"
    by (simp add: get_global_shift_def fft_flowvectors_def g)
  have zero: "get_global_shift fieldA (Some fieldB)
              = ([Pdb_set_trace], Inr (Some (- int (R div 2), - int (C div 2))))
          \<and> get_ambient_flow ext fieldA fieldB margin gs = ([], Inr None)" if z: "all_zero fieldB"
  proof -
    have b: "fieldB = replicate R (replicate C 0)" by (rule all_zero_replicate[OF assms(2) z])
    have "peak_shift fieldA fieldB = Inr (- int (R div 2), - int (C div 2))"
      unfolding b by (rule peak_shift_zeros[OF assms(1) pos(1,2)])
    then have "get_global_shift fieldA (Some fieldB)
              = ([Pdb_set_trace], Inr (Some (- int (R div 2), - int (C div 2))))"
      by (simp add: get_global_shift_def fft_flowvectors_def)
    moreover have "all_zero (binarize (flow_region fieldB ?b))"
      using z by (simp add: all_zero_binarize all_zero_flow_region)
    ultimately show ?thesis unfolding s by simp
  qed
  show ?thesis using zero glob iff by blast
qed

theorem no_signal_global_and_local_witness:
  "is_array 2 2 [[3, 0], [0, 0::real]] \<and> is_array 2 2 [[0, 0], [0, 0::real]]
   \<and> valid_extent \<lparr>obj_center = (0, 0), obj_radius = 1\<rparr> (2, 2) 2500 (500, 2500, 2500)
   \<and> all_zero [[0, 0], [0, 0]]
   \<and> get_global_shift [[3, 0], [0, 0]] (Some [[0, 0], [0, 0]])
        = ([Pdb_set_trace], Inr (Some (- 1, - 1)))
   \<and> get_ambient_flow \<lparr>obj_center = (0, 0), obj_radius = 1\<rparr> [[3, 0], [0, 0]] [[0, 0], [0, 0]]
        2500 (500, 2500, 2500) = ([], Inr None)"
proof -
  have a: "is_array 2 2 [[3, 0], [0, 0::real]]" and b: "is_array 2 2 [[0, 0], [0, 0::real]]"
    by (simp_all add: is_array_def)
  have v: "valid_extent \<lparr>obj_center = (0, 0), obj_radius = 1\<rparr> (2, 2) 2500 (500, 2500, 2500)"
    by (simp add: valid_extent_def)
  have z: "all_zero [[0, 0], [0, 0]]" by (simp add: all_zero_def)
  from no_signal_global_and_local[OF a b v] z
  have "get_global_shift [[3, 0], [0, 0]] (Some [[0, 0], [0, 0]])
          = ([Pdb_set_trace], Inr (Some (- int (2 div 2), - int (2 div 2))))
        \<and> get_ambient_flow \<lparr>obj_center = (0, 0), obj_radius = 1\<rparr> [[3, 0], [0, 0]] [[0, 0], [0, 0]]
            2500 (500, 2500, 2500) = ([], Inr None)"
    by blast
  then show ?thesis using a b v z by simp
qed

subsection \<open>The surface of a field against itself\<close>

text \<open>
  When no coefficient of the transform of the field is zero, the normalised
  cross-power spectrum of the field with itself is 1 everywhere, its inverse
  transform is the unit impulse at index \<open>(0, 0)\<close>, and the quadrant swap moves the
  impulse to the zero-lag index \<open>(R div 2, C div 2)\<close>.
\<close>

lemma cis_root_ne_1:
  assumes "0 < m" "m < N"
  shows "cis (2 * pi * (real m / real N)) \<noteq> 1"
proof
  assume "cis (2 * pi * (real m / real N)) = 1"
  then have "cos (2 * pi * (real m / real N)) = 1" by (simp add: complex_eq_iff)
  then obtain x :: int where x: "2 * pi * (real m / real N) = real_of_int x * 2 * pi"
    by (auto simp: cos_one_2pi_int)
  then have "(real m / real N) * (2 * pi) = real_of_int x * (2 * pi)" by (simp add: mult_ac)
  moreover have "2 * pi \<noteq> (0::real)" by simp
  ultimately have "real m / real N = real_of_int x"
    using mult_right_cancel[of "2 * pi" "real m / real N" "real_of_int x"] by blast
  then have "real m = real_of_int x * real N" using assms by (simp add: field_simps)
  then have "int m = x * int N" by (metis of_int_eq_iff of_int_mult of_int_of_nat_eq)
  moreover have "0 < int m" "int m < int N" using assms by simp_all
  ultimately have "0 < x * int N" "x * int N < int N" by simp_all
  then have "0 < x" "x < 1" using assms by (simp_all add: zero_less_mult_iff)
  then show False by simp
qed

lemma cis_root_sum:
  assumes "m < N"
  shows "(\<Sum>k<N. cis (2 * pi * (real (k * m) / real N))) = (if m = 0 then of_nat N else 0)"
proof (cases "m = 0")
  case True
  then show ?thesis by simp
next
  case False
  define x where "x = cis (2 * pi * (real m / real N))"
  have x1: "x \<noteq> 1" unfolding x_def using cis_root_ne_1[of m N] False assms by simp
  have xN: "x ^ N = 1"
  proof -
    have "x ^ N = cis (real N * (2 * pi * (real m / real N)))" unfolding x_def by (rule DeMoivre)
    also have "real N * (2 * pi * (real m / real N)) = 2 * pi * real m" using assms by simp
    also have "cis (2 * pi * real m) = 1" by (rule cis_multiple_2pi) simp
    finally show ?thesis .
  qed
  have "(\<Sum>k<N. cis (2 * pi * (real (k * m) / real N))) = (\<Sum>k<N. x ^ k)"
    unfolding x_def by (rule sum.cong) (simp_all add: DeMoivre algebra_simps)
  also have "\<dots> = (x ^ N - 1) / (x - 1)" by (rule geometric_sum[OF x1])
  finally show ?thesis using False by (simp add: xN)
qed

lemma ifft2_ones:
  assumes "0 < R" "0 < C"
  shows "ifft2 (replicate R (replicate C 1))
         = Inr (map (\<lambda>m. map (\<lambda>n. if m = 0 \<and> n = 0 then 1 else 0) [0..<C]) [0..<R])"
proof -
  have e: "(\<Sum>k<R. \<Sum>l<C. replicate R (replicate C (1::complex)) ! k ! l *
             cis (2 * pi * (real (k * m) / real R + real (l * n) / real C))) / of_nat (R * C)
           = (if m = 0 \<and> n = 0 then 1 else 0)" if "m < R" "n < C" for m n
  proof -
    have "(\<Sum>k<R. \<Sum>l<C. replicate R (replicate C (1::complex)) ! k ! l *
             cis (2 * pi * (real (k * m) / real R + real (l * n) / real C)))
        = (\<Sum>k<R. \<Sum>l<C. cis (2 * pi * (real (k * m) / real R)) *
             cis (2 * pi * (real (l * n) / real C)))"
      by (intro sum.cong refl) (simp add: cis_mult ring_distribs)
    also have "\<dots> = (\<Sum>k<R. cis (2 * pi * (real (k * m) / real R))) *
                     (\<Sum>l<C. cis (2 * pi * (real (l * n) / real C)))"
      by (rule sum_product[symmetric])
    also have "\<dots> = (if m = 0 then of_nat R else 0) * (if n = 0 then of_nat C else 0)"
      by (simp only: cis_root_sum[OF that(1)] cis_root_sum[OF that(2)])
    finally show ?thesis using assms by simp
  qed
  have "map (\<lambda>m. map (\<lambda>n. (\<Sum>k<R. \<Sum>l<C. replicate R (replicate C (1::complex)) ! k ! l *
             cis (2 * pi * (real (k * m) / real R + real (l * n) / real C))) / of_nat (R * C))
           [0..<C]) [0..<R]
        = map (\<lambda>m. map (\<lambda>n. if m = 0 \<and> n = 0 then 1 else 0) [0..<C]) [0..<R]"
    by (intro map_cong refl e) simp_all
  moreover have "R = 0 \<or> C = 0 \<longleftrightarrow> False" using assms by simp
  ultimately show ?thesis
    by (simp only: ifft2_def shape_replicate[OF assms(1)] Let_def prod.case if_False)
qed

lemma self_power_normalised:
  assumes "z \<noteq> 0"
  shows "z * cnj z / complex_of_real (if cmod (z * cnj z) = 0 then 1 else cmod (z * cnj z)) = 1"
proof -
  have "z * cnj z = complex_of_real ((cmod z)\<^sup>2)" by (rule complex_norm_square[symmetric])
  moreover have "cmod (z * cnj z) = (cmod z)\<^sup>2" by (simp add: norm_mult power2_eq_square)
  ultimately show ?thesis using assms by simp
qed

lemma map2_same: "map2 f xs (map g xs) = map (\<lambda>x. f x (g x)) xs"
  by (induction xs) auto

lemma cross_power_spectrum_self:
  assumes "is_array R C F" "0 < R" "0 < C" "nonzero_spectrum F"
  shows "cross_power_spectrum F F = Inr (replicate R (replicate C 1))"
proof -
  obtain f where f: "fft2 (map (map complex_of_real) F) = Inr f" "is_array R C f"
    using fft2_array[OF is_array_map[OF assms(1)] assms(2,3)] by blast
  have nz: "f ! i ! j \<noteq> 0" if "i < R" "j < C" for i j
    using assms(4) f that by (auto simp: nonzero_spectrum_def list_all_length is_array_def)
  have sf: "shape f = (R, C)" "shape (map (map cnj) f) = (R, C)"
    using shape_is_array[OF f(2) assms(2)] shape_is_array[OF is_array_map[OF f(2)] assms(2)]
    by simp_all
  define cross where "cross = map (\<lambda>i. map (\<lambda>j. f ! i ! j * cnj (f ! i ! j)) [0..<C]) [0..<R]"
  have b: "broadcast (*) f (map (map cnj) f) = Inr cross"
    using f(2) unfolding broadcast_def sf Let_def prod.case cross_def
    by (auto simp: is_array_def list_all_length)
  have "map2 (map2 (\<lambda>z n. z / complex_of_real n)) cross
          (map (map (\<lambda>z. if cmod z = 0 then 1 else cmod z)) cross)
        = map (map (\<lambda>z. z / complex_of_real (if cmod z = 0 then 1 else cmod z))) cross"
    by (simp only: map2_same map_map o_def)
  also have "\<dots> = map (\<lambda>i. map (\<lambda>j. f ! i ! j * cnj (f ! i ! j) /
                 complex_of_real (if cmod (f ! i ! j * cnj (f ! i ! j)) = 0 then 1
                                  else cmod (f ! i ! j * cnj (f ! i ! j)))) [0..<C]) [0..<R]"
    unfolding cross_def by (simp only: map_map o_def)
  also have "\<dots> = map (\<lambda>i. map (\<lambda>j. 1) [0..<C]) [0..<R]"
    by (intro map_cong refl self_power_normalised nz) simp_all
  also have "\<dots> = replicate R (replicate C 1)"
    by (simp only: tabulate_const)
  finally show ?thesis
    unfolding cross_power_spectrum_def by (simp add: f b Let_def)
qed

lemma crosscov_surface_self:
  assumes "is_array R C F" "0 < R" "0 < C" "nonzero_spectrum F"
  shows "crosscov_surface F F
         = Inr (map (\<lambda>m. map (\<lambda>n. if m = 0 \<and> n = 0 then 1 else 0) [0..<C]) [0..<R])"
proof -
  have "map (map Re) (map (\<lambda>m. map (\<lambda>n. if m = 0 \<and> n = 0 then 1 else 0) [0..<C]) [0..<R])
        = map (\<lambda>m. map (\<lambda>n. if m = 0 \<and> n = 0 then 1 else 0) [0..<C]) [0..<R]"
    by (simp only: map_map o_def) (intro map_cong refl, simp)
  then show ?thesis
    unfolding crosscov_surface_def
    by (simp only: cross_power_spectrum_self[OF assms] ifft2_ones[OF assms(2,3)] rbind.simps)
qed

lemma shift_index:
  assumes "0 < (R::nat)" "i < R"
  shows "(i + (R + 1) div 2) mod R < R"
    and "((i + (R + 1) div 2) mod R + (R - (R + 1) div 2)) mod R = i"
    and "(i + (R + 1) div 2) mod R = 0 \<longleftrightarrow> i = R div 2"
proof -
  define rd where "rd = (R + 1) div 2"
  have rd: "0 < rd" "rd \<le> R" "R - rd = R div 2" using assms(1) unfolding rd_def by auto
  show "(i + rd) mod R < R" using assms(1) by simp
  have "((i + rd) mod R + (R - rd)) mod R = (i + rd + (R - rd)) mod R"
    by (rule mod_add_left_eq)
  also have "i + rd + (R - rd) = i + R" using rd(2) by simp
  also have "(i + R) mod R = i" using assms(2) by simp
  finally show "((i + rd) mod R + (R - rd)) mod R = i" .
  have m: "(i + rd) mod R = (if i + rd < R then i + rd else i + rd - R)"
  proof (cases "i + rd < R")
    case True
    then show ?thesis by simp
  next
    case False
    then have "(i + rd) mod R = (i + rd - R) mod R" by (simp add: le_mod_geq)
    moreover have "i + rd - R < R" using assms(2) rd(2) by simp
    ultimately show ?thesis using False by simp
  qed
  show "(i + rd) mod R = 0 \<longleftrightarrow> i = R div 2"
    unfolding m using rd assms(2) by (simp split: if_splits) linarith
qed

lemma fft_crosscov_self:
  assumes "is_array R C F" "0 < R" "0 < C" "nonzero_spectrum F"
  shows "fft_crosscov F F ((R + 1) div 2) ((C + 1) div 2)
         = Inr (map (\<lambda>i. map (\<lambda>j. if i = R div 2 \<and> j = C div 2 then 1 else 0) [0..<C]) [0..<R])"
proof -
  define rd where "rd = (R + 1) div 2"
  define cd where "cd = (C + 1) div 2"
  define d :: matrix where
    "d = map (\<lambda>m. map (\<lambda>n. if m = 0 \<and> n = 0 then 1 else 0) [0..<C]) [0..<R]"
  define s where "s = fft_shift d rd cd"
  have da: "is_array R C d" unfolding d_def by (rule is_array_tabulate)
  have le: "rd \<le> R" "cd \<le> C" using assms(2,3) unfolding rd_def cd_def by auto
  have sa: "is_array R C s" unfolding s_def by (rule fft_shift_array[OF da le])
  have e: "s ! i ! j = (if i = R div 2 \<and> j = C div 2 then 1 else 0)"
    if "i < R" "j < C" for i j
  proof -
    define i0 where "i0 = (i + rd) mod R"
    define j0 where "j0 = (j + cd) mod C"
    have i0: "i0 < R" "(i0 + (R - rd)) mod R = i" "i0 = 0 \<longleftrightarrow> i = R div 2"
      unfolding i0_def rd_def by (rule shift_index[OF assms(2) that(1)])+
    have j0: "j0 < C" "(j0 + (C - cd)) mod C = j" "j0 = 0 \<longleftrightarrow> j = C div 2"
      unfolding j0_def cd_def by (rule shift_index[OF assms(3) that(2)])+
    have "s ! ((i0 + (R - rd)) mod R) ! ((j0 + (C - cd)) mod C) = d ! i0 ! j0"
      unfolding s_def by (rule fft_shift_nth[OF da le i0(1) j0(1)])
    then have "s ! i ! j = d ! i0 ! j0" by (simp only: i0(2) j0(2))
    also have "\<dots> = (if i0 = 0 \<and> j0 = 0 then 1 else 0)"
      using i0(1) j0(1) by (simp add: d_def)
    finally show ?thesis by (simp only: i0(3) j0(3))
  qed
  have len: "length s = R" "\<And>i. i < R \<Longrightarrow> length (s ! i) = C"
    using sa by (auto simp: is_array_def list_all_length)
  have "s = map (\<lambda>i. map (\<lambda>j. if i = R div 2 \<and> j = C div 2 then 1 else 0) [0..<C]) [0..<R]"
    by (rule nth_equalityI) (simp_all add: len list_eq_iff_nth_eq e)
  then show ?thesis
    unfolding fft_crosscov_def
    by (simp only: crosscov_surface_self[OF assms] rbind.simps d_def[symmetric]
          rd_def[symmetric] cd_def[symmetric] s_def[symmetric])
qed

lemma single_cell_nonzero_spectrum:
  assumes "is_array R C F" "p < R" "q < C" "F ! p ! q \<noteq> 0"
      and "\<And>i j. i < R \<Longrightarrow> j < C \<Longrightarrow> (i, j) \<noteq> (p, q) \<Longrightarrow> F ! i ! j = 0"
  shows "nonzero_spectrum F"
proof -
  define G where "G = map (map complex_of_real) F"
  have R: "0 < R" using assms(2) by simp
  have Ga: "is_array R C G" unfolding G_def by (rule is_array_map[OF assms(1)])
  have len: "length F = R" "\<And>i. i < R \<Longrightarrow> length (F ! i) = C"
    using assms(1) by (auto simp: is_array_def list_all_length)
  have Gn: "G ! i ! j = complex_of_real (F ! i ! j)" if "i < R" "j < C" for i j
    using that len unfolding G_def by simp
  have ent: "(\<Sum>m<R. \<Sum>n<C. G ! m ! n *
                cis (- (2 * pi * (real (k * m) / real R + real (l * n) / real C)))) \<noteq> 0"
    for k l
  proof -
    let ?t = "\<lambda>m n. G ! m ! n * cis (- (2 * pi * (real (k * m) / real R + real (l * n) / real C)))"
    have inner: "(\<Sum>n<C. ?t m n) = (if m = p then ?t p q else 0)" if "m < R" for m
    proof -
      have "(\<Sum>n<C. ?t m n) = (\<Sum>n<C. if n = q then (if m = p then ?t p q else 0) else 0)"
        using that by (intro sum.cong refl) (auto simp: Gn assms(5))
      also have "\<dots> = (if m = p then ?t p q else 0)" using assms(3) by simp
      finally show ?thesis .
    qed
    have "(\<Sum>m<R. \<Sum>n<C. ?t m n) = (\<Sum>m<R. if m = p then ?t p q else 0)"
      by (intro sum.cong refl) (simp only: inner lessThan_iff)
    also have "\<dots> = ?t p q" using assms(2) by simp
    finally have "(\<Sum>m<R. \<Sum>n<C. ?t m n) = ?t p q" .
    moreover have "?t p q \<noteq> 0"
      using assms(2,3,4) by (simp add: Gn)
    ultimately show ?thesis by simp
  qed
  have "fft2 G = Inr (map (\<lambda>k. map (\<lambda>l.
                (\<Sum>m<R. \<Sum>n<C. G ! m ! n *
                   cis (- (2 * pi * (real (k * m) / real R + real (l * n) / real C)))))
              [0..<C]) [0..<R])"
    using R assms(3) unfolding fft2_def shape_is_array[OF Ga R] Let_def prod.case by simp
  then show ?thesis
    unfolding nonzero_spectrum_def G_def[symmetric]
    by (simp add: list_all_length ent del: of_nat_mult)
qed

subsection \<open>The Gaussian filter on a unit impulse\<close>

text \<open>
  The filter is separable: the smoothed impulse is the product of the responses of
  the two axes. With \<open>sigma\<close> an eighth of the smaller dimension the kernel has
  radius \<open>(m + 1) div 2\<close>, and on each axis the response is largest at the
  position of the impulse: there the central weight contributes, and elsewhere at
  most the impulse and its reflections about the two edges, with weights that sum
  to less than the central one.
\<close>

lemma weights_nth:
  assumes "k < 2 * lw + 1"
  shows "rev (gaussian_kernel1d sigma lw) ! k
         = exp (- 0.5 / (sigma * sigma) * (real k - real lw)\<^sup>2)
           / (\<Sum>k<2 * lw + 1. exp (- 0.5 / (sigma * sigma) * (real k - real lw)\<^sup>2))"
proof -
  let ?f = "\<lambda>k. exp (- 0.5 / (sigma * sigma) * (real k - real lw)\<^sup>2)"
  have s: "sum_list (map ?f [0..<2 * lw + 1]) = (\<Sum>k<2 * lw + 1. ?f k)"
    by (simp add: interv_sum_list_conv_sum_set_nat atLeast0LessThan)
  have "rev (gaussian_kernel1d sigma lw) ! k = gaussian_kernel1d sigma lw ! (2 * lw - k)"
    using assms by (simp add: rev_nth kernel_length)
  also have "\<dots> = ?f (2 * lw - k) / (\<Sum>k<2 * lw + 1. ?f k)"
    using assms unfolding gaussian_kernel1d_def Let_def s by (simp del: upt_Suc)
  also have "(real (2 * lw - k) - real lw)\<^sup>2 = (real k - real lw)\<^sup>2"
  proof -
    have "real (2 * lw - k) - real lw = - (real k - real lw)" using assms by simp
    then show ?thesis by (simp only: power2_minus)
  qed
  finally show ?thesis .
qed

lemma reflect_index_eq:
  assumes "z < n" "- int n \<le> p" "p < 2 * int n"
  shows "reflect_index n p = z
         \<longleftrightarrow> p = int z \<or> p = 2 * int n - 1 - int z \<or> p = - 1 - int z"
proof (cases "0 \<le> p")
  case True
  then have "p mod (2 * int n) = p" using assms(3) by simp
  then show ?thesis using assms True unfolding reflect_index_def Let_def by auto
next
  case False
  have "(p + 2 * int n) mod (2 * int n) = p + 2 * int n"
    by (rule mod_pos_pos_trivial) (use assms(1,2) False in auto)
  moreover have "(p + 2 * int n) mod (2 * int n) = p mod (2 * int n)" by (rule mod_add_self2)
  ultimately have "p mod (2 * int n) = p + 2 * int n" by simp
  then show ?thesis using assms False unfolding reflect_index_def Let_def by auto
qed

lemma sum_at:
  fixes f :: "nat \<Rightarrow> real"
  shows "(\<Sum>k<N. f k * (if int k = d then 1 else 0))
         = (if 0 \<le> d \<and> d < int N then f (nat d) else 0)"
proof (cases "0 \<le> d \<and> d < int N")
  case True
  have "(\<Sum>k<N. f k * (if int k = d then 1 else 0)) = (\<Sum>k<N. if k = nat d then f k else 0)"
    using True by (intro sum.cong refl) auto
  also have "\<dots> = (if nat d \<in> {..<N} then f (nat d) else 0)" by (rule sum.delta) simp
  finally show ?thesis using True by auto
next
  case False
  have "(\<Sum>k<N. f k * (if int k = d then 1 else 0)) = (\<Sum>k<N. 0)"
    using False by (intro sum.cong refl) auto
  then show ?thesis using False by auto
qed

lemma response_terms:
  fixes f :: "nat \<Rightarrow> real"
  assumes "z < n" "i < n" "lw \<le> n"
  shows "(\<Sum>k<2 * lw + 1. f k *
            (if reflect_index n (int i + int k - int lw) = z then 1 else 0))
       = (if 0 \<le> int z - int i + int lw \<and> int z - int i + int lw < int (2 * lw + 1)
          then f (nat (int z - int i + int lw)) else 0)
       + (if 0 \<le> 2 * int n - 1 - int z - int i + int lw
               \<and> 2 * int n - 1 - int z - int i + int lw < int (2 * lw + 1)
          then f (nat (2 * int n - 1 - int z - int i + int lw)) else 0)
       + (if 0 \<le> - 1 - int z - int i + int lw \<and> - 1 - int z - int i + int lw < int (2 * lw + 1)
          then f (nat (- 1 - int z - int i + int lw)) else 0)"
proof -
  have ind: "(if reflect_index n (int i + int k - int lw) = z then 1 else 0)
      = (if int k = int z - int i + int lw then 1 else 0)
      + (if int k = 2 * int n - 1 - int z - int i + int lw then 1 else 0)
      + (if int k = - 1 - int z - int i + int lw then (1::real) else 0)"
    if "k < 2 * lw + 1" for k
  proof -
    have "reflect_index n (int i + int k - int lw) = z
          \<longleftrightarrow> int i + int k - int lw = int z \<or> int i + int k - int lw = 2 * int n - 1 - int z
              \<or> int i + int k - int lw = - 1 - int z"
      using that assms by (intro reflect_index_eq) auto
    then show ?thesis using assms by auto
  qed
  have "(\<Sum>k<2 * lw + 1. f k *
            (if reflect_index n (int i + int k - int lw) = z then 1 else 0))
      = (\<Sum>k<2 * lw + 1. f k * (if int k = int z - int i + int lw then 1 else 0)
           + f k * (if int k = 2 * int n - 1 - int z - int i + int lw then 1 else 0)
           + f k * (if int k = - 1 - int z - int i + int lw then 1 else 0))"
    by (intro sum.cong refl) (simp only: ind lessThan_iff distrib_left)
  then show ?thesis by (simp only: sum.distrib sum_at)
qed

lemma exp_le_two_fifths:
  assumes "x \<le> - 1"
  shows "exp x \<le> (2 / 5 :: real)"
proof -
  have "1 + 1 + 1\<^sup>2 / 2 \<le> exp (1::real)" by (rule exp_lower_Taylor_quadratic) simp
  then have "5 / 2 \<le> exp (1::real)" by simp
  then have "inverse (exp (1::real)) \<le> inverse (5 / 2)" by (intro le_imp_inverse_le) simp_all
  then have "exp (- 1 :: real) \<le> 2 / 5" by (simp add: exp_minus)
  moreover have "exp x \<le> exp (- 1)" using assms by simp
  ultimately show ?thesis by linarith
qed

lemma exp_le_one_41st:
  assumes "x \<le> - 8"
  shows "exp x \<le> (1 / 41 :: real)"
proof -
  have "1 + 8 + 8\<^sup>2 / 2 \<le> exp (8::real)" by (rule exp_lower_Taylor_quadratic) simp
  then have "41 \<le> exp (8::real)" by simp
  then have "inverse (exp (8::real)) \<le> inverse 41" by (intro le_imp_inverse_le) simp_all
  then have "exp (- 8 :: real) \<le> 1 / 41" by (simp add: exp_minus)
  moreover have "exp x \<le> exp (- 8)" using assms by simp
  ultimately show ?thesis by linarith
qed

lemma near_edge_far_from_centre:
  fixes a m :: int
  assumes "1 \<le> a" "m - 1 - (m + 1) div 2 \<le> a" "0 < m"
  shows "m * m \<le> 32 * (a * a)"
proof (cases "m \<le> 5")
  case True
  have "a * a \<ge> 1 * 1" using assms(1) by (intro mult_mono) simp_all
  moreover have "m * m \<le> 5 * 5" using True assms(3) by (intro mult_mono) simp_all
  ultimately show ?thesis by simp
next
  case False
  define t where "t = m - 3"
  have t: "3 \<le> t" "t \<le> 2 * a" using False assms(2) unfolding t_def by linarith+
  have "t * t \<le> (2 * a) * (2 * a)" using t by (intro mult_mono) simp_all
  then have "t * t \<le> 4 * (a * a)" by simp
  moreover have "3 * t \<le> t * t" using t(1) by (intro mult_mono) simp_all
  moreover have "(t + 3) * (t + 3) = t * t + 6 * t + 9" by (simp add: algebra_simps)
  ultimately have "(t + 3) * (t + 3) \<le> 32 * (a * a)" using t(1) by linarith
  then show ?thesis by (simp add: t_def)
qed

lemma gaussian_exponent:
  fixes d :: int
  assumes "0 < m" "int m * int m \<le> q * (d * d)" "0 < q"
  shows "- 0.5 / (1 / 8 * real m * (1 / 8 * real m)) * (real_of_int d)\<^sup>2
         \<le> - (32 / real_of_int q)"
proof -
  have "real_of_int (int m * int m) \<le> real_of_int (q * (d * d))"
    using assms(2) by (simp only: of_int_le_iff)
  then have le: "real m * real m \<le> real_of_int q * (real_of_int d)\<^sup>2"
    by (simp add: power2_eq_square)
  have pos: "0 < real m * real m" using assms(1) by simp
  have "- 0.5 / (1 / 8 * real m * (1 / 8 * real m)) * (real_of_int d)\<^sup>2
        = - (32 * (real_of_int d)\<^sup>2 / (real m * real m))"
    by simp
  also have "\<dots> \<le> - (32 / real_of_int q)"
  proof -
    have "32 / real_of_int q \<le> 32 * (real_of_int d)\<^sup>2 / (real m * real m)"
      using le pos assms(3) by (simp add: field_simps)
    then show ?thesis by simp
  qed
  finally show ?thesis .
qed

lemma reflect_index_id: "z < n \<Longrightarrow> reflect_index n (int z) = z"
  by (simp add: reflect_index_def)

lemma response_at_centre:
  assumes "z < n"
  shows "1 \<le> (\<Sum>k<2 * lw + 1. exp (c * (real k - real lw)\<^sup>2) *
                (if reflect_index n (int z + int k - int lw) = z then 1 else 0 :: real))"
proof -
  let ?g = "\<lambda>k. exp (c * (real k - real lw)\<^sup>2) *
                (if reflect_index n (int z + int k - int lw) = z then 1 else 0 :: real)"
  have "?g lw \<le> sum ?g {..<2 * lw + 1}"
    by (rule member_le_sum) simp_all
  moreover have "?g lw = 1" using assms by (simp add: reflect_index_id)
  ultimately show ?thesis by simp
qed

lemma response_nonneg:
  "0 \<le> (\<Sum>k<2 * lw + 1. exp (c * (real k - real lw)\<^sup>2) *
                (if reflect_index n (int i + int k - int lw) = z then 1 else 0 :: real))"
  by (rule sum_nonneg) simp

lemma response_off_centre:
  assumes "0 < m" "m \<le> n" "i < n" "i \<noteq> n div 2"
  shows "(\<Sum>k<2 * ((m + 1) div 2) + 1.
            exp (- 0.5 / (1 / 8 * real m * (1 / 8 * real m)) * (real k - real ((m + 1) div 2))\<^sup>2) *
            (if reflect_index n (int i + int k - int ((m + 1) div 2)) = n div 2 then 1 else 0))
         < (1::real)"
proof -
  define lw where "lw = (m + 1) div 2"
  define z where "z = n div 2"
  define c :: real where "c = - 0.5 / (1 / 8 * real m * (1 / 8 * real m))"
  define f where "f k = exp (c * (real k - real lw)\<^sup>2)" for k
  define T where "T d = (if 0 \<le> d + int lw \<and> d + int lw < int (2 * lw + 1)
                         then f (nat (d + int lw)) else 0)" for d
  define d1 where "d1 = int z - int i"
  define d2 where "d2 = 2 * int n - 1 - int z - int i"
  define d3 where "d3 = - 1 - int z - int i"
  have zn: "z < n" using assms(1,2) unfolding z_def by simp
  have lwn: "lw \<le> n" using assms(1,2) unfolding lw_def by simp
  have L: "int lw = (int m + 1) div 2" unfolding lw_def by (simp add: zdiv_int)
  have Z: "2 * int z \<le> int n" "int n \<le> 2 * int z + 1" unfolding z_def by simp_all
  have I: "int i < int n" "int i \<noteq> int z" using assms(3,4) unfolding z_def by simp_all
  have M: "0 < int m" "int m \<le> int n" using assms(1,2) by simp_all
  have c: "c < 0" using assms(1) unfolding c_def by simp
  have Tv: "T d = (if - int lw \<le> d \<and> d \<le> int lw then exp (c * (real_of_int d)\<^sup>2) else 0)" for d
  proof (cases "0 \<le> d + int lw \<and> d + int lw < int (2 * lw + 1)")
    case True
    then have "real (nat (d + int lw)) - real lw = real_of_int d" by simp
    then show ?thesis using True unfolding T_def f_def by auto
  next
    case False
    then show ?thesis unfolding T_def by auto
  qed
  have sum: "(\<Sum>k<2 * lw + 1. f k *
            (if reflect_index n (int i + int k - int lw) = z then 1 else 0)) = T d1 + T d2 + T d3"
    unfolding T_def d1_def d2_def d3_def
    by (rule response_terms[OF zn assms(3) lwn])
  have far: "T d \<le> 1 / 41" if "int m \<le> 2 * \<bar>d\<bar>" for d
  proof -
    have "int m * int m \<le> (2 * \<bar>d\<bar>) * (2 * \<bar>d\<bar>)" using that M(1) by (intro mult_mono) simp_all
    then have "int m * int m \<le> 4 * (d * d)" by (simp add: algebra_simps)
    from gaussian_exponent[OF assms(1) this] have "c * (real_of_int d)\<^sup>2 \<le> - 8"
      unfolding c_def by simp
    then have "exp (c * (real_of_int d)\<^sup>2) \<le> 1 / 41" by (rule exp_le_one_41st)
    then show ?thesis unfolding Tv by simp
  qed
  have T2: "T d2 \<le> 1 / 41" by (rule far) (use Z I M in \<open>simp add: d2_def\<close>)
  have T3: "T d3 \<le> 1 / 41" by (rule far) (use Z I M in \<open>simp add: d3_def\<close>)
  have T1: "T d1 + T d2 + T d3 < 1"
  proof (cases "int m * int m \<le> 32 * (d1 * d1)")
    case True
    from gaussian_exponent[OF assms(1) True] have "c * (real_of_int d1)\<^sup>2 \<le> - 1"
      unfolding c_def by simp
    then have "exp (c * (real_of_int d1)\<^sup>2) \<le> 2 / 5" by (rule exp_le_two_fifths)
    then have "T d1 \<le> 2 / 5" unfolding Tv by simp
    then show ?thesis using T2 T3 by simp
  next
    case False
    have d1: "1 \<le> \<bar>d1\<bar>" using I(2) unfolding d1_def by simp
    have nf: "\<not> int m - 1 - (int m + 1) div 2 \<le> \<bar>d1\<bar>"
    proof
      assume "int m - 1 - (int m + 1) div 2 \<le> \<bar>d1\<bar>"
      from near_edge_far_from_centre[OF d1 this M(1)] False show False
        by simp
    qed
    have "\<not> d2 \<le> int lw" using nf Z I M unfolding d1_def d2_def L by linarith
    then have z2: "T d2 = 0" unfolding Tv by simp
    have "\<not> - int lw \<le> d3" using nf Z I M unfolding d1_def d3_def L by linarith
    then have z3: "T d3 = 0" unfolding Tv by simp
    have "d1 \<noteq> 0" using I(2) unfolding d1_def by simp
    then have "0 < (real_of_int d1)\<^sup>2" by simp
    then have "c * (real_of_int d1)\<^sup>2 < 0" using c by (simp add: mult_neg_pos)
    then have "exp (c * (real_of_int d1)\<^sup>2) < 1" by simp
    then have "T d1 < 1" unfolding Tv by simp
    then show ?thesis using z2 z3 by simp
  qed
  show ?thesis
    using T1 unfolding sum[symmetric] f_def c_def lw_def z_def .
qed

lemma filter_unique:
  assumes "distinct xs" "x \<in> set xs" "P x" "\<And>y. y \<in> set xs \<Longrightarrow> P y \<Longrightarrow> y = x"
  shows "filter P xs = [x]"
  using assms
proof (induction xs)
  case Nil
  then show ?case by simp
next
  case (Cons a xs)
  show ?case
  proof (cases "a = x")
    case True
    have "\<not> P y" if "y \<in> set xs" for y
    proof
      assume "P y"
      then have "y = x" using Cons.prems(4)[of y] that by simp
      then show False using that True Cons.prems(1) by simp
    qed
    then have "filter P xs = []" by (simp add: filter_empty_conv)
    then show ?thesis using True Cons.prems(3) by simp
  next
    case False
    have "\<not> P a"
    proof
      assume "P a"
      then have "a = x" using Cons.prems(4)[of a] by simp
      then show False using False by simp
    qed
    moreover have "filter P xs = [x]"
    proof (rule Cons.IH)
      show "distinct xs" using Cons.prems(1) by simp
      show "x \<in> set xs" using Cons.prems(2) False by simp
      show "P x" by (rule Cons.prems(3))
      show "y = x" if "y \<in> set xs" "P y" for y using Cons.prems(4)[of y] that by simp
    qed
    ultimately show ?thesis by simp
  qed
qed

lemma unique_peak:
  assumes "is_array R C g" "p < R" "q < C"
      and "\<And>i j. i < R \<Longrightarrow> j < C \<Longrightarrow> (i, j) \<noteq> (p, q) \<Longrightarrow> g ! i ! j < g ! p ! q"
  shows "np_max g = Inr (g ! p ! q)" "argwhere_first g (g ! p ! q) = Inr (p, q)"
proof -
  have R: "0 < R" and C: "0 < C" using assms(2,3) by simp_all
  have len: "length g = R" "\<And>i. i < R \<Longrightarrow> length (g ! i) = C"
    using assms(1) by (auto simp: is_array_def list_all_length)
  have el: "\<exists>i j. i < R \<and> j < C \<and> v = g ! i ! j" if "v \<in> set (concat g)" for v
  proof -
    from that obtain r where r: "r \<in> set g" "v \<in> set r" by auto
    then obtain i where i: "i < R" "g ! i = r" using len(1) by (auto simp: in_set_conv_nth)
    then obtain j where "j < C" "r ! j = v" using r(2) len(2)[OF i(1)] by (auto simp: in_set_conv_nth)
    then show ?thesis using i by auto
  qed
  have mem: "g ! p ! q \<in> set (concat g)"
    using assms(2,3) len by (auto intro!: bexI[where x = "g ! p"])
  have "Max (set (concat g)) = g ! p ! q"
  proof (rule Max_eqI)
    show "finite (set (concat g))" by simp
    show "g ! p ! q \<in> set (concat g)" by (rule mem)
    fix v assume "v \<in> set (concat g)"
    then obtain i j where ij: "i < R" "j < C" "v = g ! i ! j" using el by blast
    show "v \<le> g ! p ! q"
    proof (cases "(i, j) = (p, q)")
      case True
      then show ?thesis using ij(3) by simp
    next
      case False
      then show ?thesis using assms(4)[OF ij(1,2)] ij(3) by simp
    qed
  qed
  then show "np_max g = Inr (g ! p ! q)" by (simp only: np_max_array[OF assms(1) R C])
  have "filter (\<lambda>(i, j). g ! i ! j = g ! p ! q) (List.product [0..<R] [0..<C]) = [(p, q)]"
  proof (rule filter_unique)
    show "distinct (List.product [0..<R] [0..<C])" by (simp add: distinct_product)
    show "(p, q) \<in> set (List.product [0..<R] [0..<C])" using assms(2,3) by simp
    show "case (p, q) of (i, j) \<Rightarrow> g ! i ! j = g ! p ! q" by simp
    fix y assume y: "y \<in> set (List.product [0..<R] [0..<C])"
      "case y of (i, j) \<Rightarrow> g ! i ! j = g ! p ! q"
    obtain i j where yij: "y = (i, j)" by (cases y)
    show "y = (p, q)"
    proof (rule ccontr)
      assume "y \<noteq> (p, q)"
      then have "g ! i ! j < g ! p ! q" using y(1) yij by (intro assms(4)) auto
      then show False using y(2) yij by simp
    qed
  qed
  then show "argwhere_first g (g ! p ! q) = Inr (p, q)"
    by (simp add: argwhere_first_def shape_is_array[OF assms(1) R])
qed

lemma radius_of_sigma:
  "nat (np_int (4 * (1 / 8 * real m) + 0.5)) = (m + 1) div 2"
proof -
  have "4 * (1 / 8 * real m) + 0.5 = real_of_int (int m + 1) / real_of_int 2" by simp
  then have "\<lfloor>4 * (1 / 8 * real m) + 0.5\<rfloor> = (int m + 1) div 2"
    by (simp only: floor_divide_of_int_eq)
  moreover have "np_int (4 * (1 / 8 * real m) + 0.5) = \<lfloor>4 * (1 / 8 * real m) + 0.5\<rfloor>"
    by (rule np_int_nonneg) simp
  ultimately have "np_int (4 * (1 / 8 * real m) + 0.5) = (int m + 1) div 2" by simp
  then show ?thesis by (simp add: zdiv_int nat_div_distrib)
qed

lemma gaussian_filter_impulse:
  assumes "0 < R" "0 < C" "p < R" "q < C"
  shows "gaussian_filter
           (map (\<lambda>i. map (\<lambda>j. if i = p \<and> j = q then 1 else 0) [0..<C]) [0..<R]) sigma
       = map (\<lambda>i. map (\<lambda>j.
           (\<Sum>k<2 * nat (np_int (4 * sigma + 0.5)) + 1.
              rev (gaussian_kernel1d sigma (nat (np_int (4 * sigma + 0.5)))) ! k *
              (if reflect_index R (int i + int k - int (nat (np_int (4 * sigma + 0.5)))) = p
               then 1 else 0))
         * (\<Sum>k<2 * nat (np_int (4 * sigma + 0.5)) + 1.
              rev (gaussian_kernel1d sigma (nat (np_int (4 * sigma + 0.5)))) ! k *
              (if reflect_index C (int j + int k - int (nat (np_int (4 * sigma + 0.5)))) = q
               then 1 else 0))) [0..<C]) [0..<R]"
proof -
  define lw where "lw = nat (np_int (4 * sigma + 0.5))"
  define w where "w = rev (gaussian_kernel1d sigma lw)"
  define imp :: matrix where
    "imp = map (\<lambda>i. map (\<lambda>j. if i = p \<and> j = q then 1 else 0) [0..<C]) [0..<R]"
  define A where "A i = (\<Sum>k<2 * lw + 1. w ! k *
              (if reflect_index R (int i + int k - int lw) = p then 1 else 0))" for i
  define B where "B j = (\<Sum>k<2 * lw + 1. w ! k *
              (if reflect_index C (int j + int k - int lw) = q then 1 else 0))" for j
  define a0 where "a0 = map (\<lambda>i. map (\<lambda>j.
                 (\<Sum>k<2 * lw + 1. w ! k *
                    imp ! reflect_index R (int i + int k - int lw) ! j)) [0..<C]) [0..<R]"
  have sh: "shape imp = (R, C)"
    unfolding imp_def by (rule shape_is_array[OF is_array_tabulate assms(1)])
  have impn: "imp ! r ! j = (if r = p \<and> j = q then 1 else 0)" if "r < R" "j < C" for r j
    using that unfolding imp_def by simp
  have a0n: "a0 ! i ! j = (if j = q then A i else 0)" if "i < R" "j < C" for i j
  proof -
    have "a0 ! i ! j = (\<Sum>k<2 * lw + 1. w ! k *
                    imp ! reflect_index R (int i + int k - int lw) ! j)"
      using that unfolding a0_def by simp
    also have "\<dots> = (\<Sum>k<2 * lw + 1. if j = q then w ! k *
              (if reflect_index R (int i + int k - int lw) = p then 1 else 0) else 0)"
      by (intro sum.cong refl) (simp add: impn[OF reflect_index_less[OF assms(1)] that(2)])
    also have "\<dots> = (if j = q then A i else 0)" unfolding A_def by simp
    finally show ?thesis .
  qed
  have gn: "(\<Sum>k<2 * lw + 1. w ! k * a0 ! i ! reflect_index C (int j + int k - int lw))
            = A i * B j" if "i < R" for i j
  proof -
    have "(\<Sum>k<2 * lw + 1. w ! k * a0 ! i ! reflect_index C (int j + int k - int lw))
        = (\<Sum>k<2 * lw + 1. A i * (w ! k *
              (if reflect_index C (int j + int k - int lw) = q then 1 else 0)))"
      by (intro sum.cong refl) (simp add: a0n[OF that reflect_index_less[OF assms(2)]])
    also have "\<dots> = A i * B j" unfolding B_def by (simp only: sum_distrib_left)
    finally show ?thesis .
  qed
  have "map (\<lambda>i. map (\<lambda>j.
           (\<Sum>k<2 * lw + 1. w ! k * a0 ! i ! reflect_index C (int j + int k - int lw)))
          [0..<C]) [0..<R]
        = map (\<lambda>i. map (\<lambda>j. A i * B j) [0..<C]) [0..<R]"
    by (intro map_cong refl gn) simp
  then show ?thesis
    unfolding gaussian_filter_def imp_def[symmetric] sh Let_def prod.case lw_def[symmetric]
      w_def[symmetric] a0_def[symmetric] A_def B_def .
qed

lemma smoothed_impulse_peak:
  assumes "0 < R" "0 < C"
  defines "g \<equiv> gaussian_filter
           (map (\<lambda>i. map (\<lambda>j. if i = R div 2 \<and> j = C div 2 then 1 else 0) [0..<C]) [0..<R])
           (1 / 8 * real (min R C))"
  shows "np_max g = Inr (g ! (R div 2) ! (C div 2))"
    and "argwhere_first g (g ! (R div 2) ! (C div 2)) = Inr (R div 2, C div 2)"
proof -
  define m where "m = min R C"
  define sigma where "sigma = 1 / 8 * real m"
  define lw where "lw = (m + 1) div 2"
  define c where "c = - 0.5 / (sigma * sigma)"
  define S where "S = (\<Sum>k<2 * lw + 1. exp (c * (real k - real lw)\<^sup>2))"
  define E where "E n i = (\<Sum>k<2 * lw + 1. exp (c * (real k - real lw)\<^sup>2) *
            (if reflect_index n (int i + int k - int lw) = n div 2 then 1 else 0))" for n i
  have m: "0 < m" "m \<le> R" "m \<le> C" using assms(1,2) unfolding m_def by simp_all
  have p: "R div 2 < R" "C div 2 < C" using assms(1,2) by simp_all
  have lw: "nat (np_int (4 * sigma + 0.5)) = lw"
    unfolding sigma_def lw_def by (rule radius_of_sigma)
  have S: "0 < S" unfolding S_def by (rule sum_pos) auto
  have resp: "(\<Sum>k<2 * lw + 1. rev (gaussian_kernel1d sigma lw) ! k *
              (if reflect_index n (int i + int k - int lw) = n div 2 then 1 else 0)) = E n i / S"
    for n i
  proof -
    have "(\<Sum>k<2 * lw + 1. rev (gaussian_kernel1d sigma lw) ! k *
              (if reflect_index n (int i + int k - int lw) = n div 2 then 1 else 0))
        = (\<Sum>k<2 * lw + 1. exp (c * (real k - real lw)\<^sup>2) *
              (if reflect_index n (int i + int k - int lw) = n div 2 then 1 else 0) / S)"
      unfolding S_def c_def by (intro sum.cong refl) (simp add: weights_nth)
    then show ?thesis unfolding E_def by (simp only: sum_divide_distrib)
  qed
  have g: "g = map (\<lambda>i. map (\<lambda>j. E R i / S * (E C j / S)) [0..<C]) [0..<R]"
    unfolding g_def m_def[symmetric] sigma_def[symmetric]
    by (simp only: gaussian_filter_impulse[OF assms(1,2) p] lw resp)
  have ga: "is_array R C g" unfolding g by (rule is_array_tabulate)
  have gn: "g ! i ! j = E R i / S * (E C j / S)" if "i < R" "j < C" for i j
    using that unfolding g by simp
  have E0: "0 \<le> E n i" for n i unfolding E_def by (rule response_nonneg)
  have E1: "1 \<le> E n (n div 2)" if "0 < n" for n
    unfolding E_def by (rule response_at_centre) (use that in simp)
  have E2: "E n i < 1" if "m \<le> n" "i < n" "i \<noteq> n div 2" for n i
    unfolding E_def c_def sigma_def lw_def by (rule response_off_centre[OF m(1) that])
  have less: "g ! i ! j < g ! (R div 2) ! (C div 2)"
    if "i < R" "j < C" "(i, j) \<noteq> (R div 2, C div 2)" for i j
  proof -
    have "E R i * E C j < E R (R div 2) * E C (C div 2)"
    proof (cases "i = R div 2")
      case True
      then have "j \<noteq> C div 2" using that(3) by simp
      then have "E C j < E C (C div 2)" using E2[OF m(3) that(2)] E1[OF assms(2)] by simp
      moreover have "0 < E R (R div 2)" using E1[OF assms(1)] by simp
      ultimately show ?thesis using True by simp
    next
      case False
      then have a: "E R i < E R (R div 2)" using E2[OF m(2) that(1)] E1[OF assms(1)] by simp
      have b: "E C j \<le> E C (C div 2)"
      proof (cases "j = C div 2")
        case True
        then show ?thesis by simp
      next
        case False
        then show ?thesis using E2[OF m(3) that(2)] E1[OF assms(2)] by simp
      qed
      have "E R i * E C j \<le> E R i * E C (C div 2)" using b E0 by (intro mult_left_mono)
      also have "\<dots> < E R (R div 2) * E C (C div 2)"
        using a E1[OF assms(2)] by (intro mult_strict_right_mono) simp_all
      finally show ?thesis .
    qed
    then have "E R i * E C j / (S * S) < E R (R div 2) * E C (C div 2) / (S * S)"
      using S by (intro divide_strict_right_mono) simp_all
    then show ?thesis unfolding gn[OF that(1,2)] gn[OF p] by simp
  qed
  show "np_max g = Inr (g ! (R div 2) ! (C div 2))"
    by (rule unique_peak(1)[OF ga p less])
  show "argwhere_first g (g ! (R div 2) ! (C div 2)) = Inr (R div 2, C div 2)"
    by (rule unique_peak(2)[OF ga p less])
qed

lemma peak_shift_self:
  assumes "is_array R C F" "0 < R" "0 < C" "nonzero_spectrum F"
  shows "peak_shift F F = Inr (0, 0)"
proof -
  define imp :: matrix where
    "imp = map (\<lambda>i. map (\<lambda>j. if i = R div 2 \<and> j = C div 2 then 1 else 0) [0..<C]) [0..<R]"
  define g where "g = gaussian_filter imp (1 / 8 * real (min R C))"
  have cc: "fft_crosscov F F ((R + 1) div 2) ((C + 1) div 2) = Inr imp"
    unfolding imp_def by (rule fft_crosscov_self[OF assms])
  have shp: "shape imp = (R, C)"
    unfolding imp_def by (rule shape_is_array[OF is_array_tabulate assms(2)])
  have nm: "np_max g = Inr (g ! (R div 2) ! (C div 2))"
    and aw: "argwhere_first g (g ! (R div 2) ! (C div 2)) = Inr (R div 2, C div 2)"
    unfolding g_def imp_def by (rule smoothed_impulse_peak[OF assms(2,3)])+
  have "peak_shift F F =
      rbind (np_max g) (\<lambda>peak. rbind (argwhere_first g peak) (\<lambda>(pr, pc).
         Inr (int pr - (int R - int ((R + 1) div 2)), int pc - (int C - int ((C + 1) div 2)))))"
    unfolding peak_shift_def shape_is_array[OF assms(1,2)] Let_def prod.case cc rbind.simps
      shp fst_conv snd_conv g_def
    by (rule refl)
  moreover have "int (R div 2) - (int R - int ((R + 1) div 2)) = 0"
      "int (C div 2) - (int C - int ((C + 1) div 2)) = 0" by auto
  ultimately show ?thesis by (simp add: nm aw)
qed

subsection \<open>The global shift of a field against itself\<close>

text \<open>
  For every non-empty field the shift is the first index, in row-major order, of the
  maximum of the smoothed surface, minus \<open>(R div 2, C div 2)\<close>.
\<close>

lemma global_shift_self_first_maximum:
  assumes "is_array R C F" "0 < R" "0 < C"
  shows "\<exists>surf peak i j.
           fft_crosscov F F ((R + 1) div 2) ((C + 1) div 2) = Inr surf
         \<and> np_max (gaussian_filter surf (1 / 8 * real (min R C))) = Inr peak
         \<and> argwhere_first (gaussian_filter surf (1 / 8 * real (min R C))) peak = Inr (i, j)
         \<and> get_global_shift F (Some F)
             = ([Pdb_set_trace], Inr (Some (int i - int (R div 2), int j - int (C div 2))))
         \<and> (get_global_shift F (Some F) = ([Pdb_set_trace], Inr (Some (0, 0)))
              \<longleftrightarrow> (i, j) = (R div 2, C div 2))"
proof -
  obtain c where c: "crosscov_surface F F = Inr c" "is_array R C c"
    using crosscov_surface_array[OF assms(1,1,2,3)] by blast
  define sh where "sh = fft_shift c ((R + 1) div 2) ((C + 1) div 2)"
  have sh: "is_array R C sh" unfolding sh_def by (rule fft_shift_array[OF c(2)]) auto
  define g where "g = gaussian_filter sh (1 / 8 * real (min R C))"
  have g: "is_array R C g" unfolding g_def by (rule gaussian_filter_array[OF sh assms(2)])
  define v where "v = Max (set (concat g))"
  have "v \<in> set (concat g)"
    unfolding v_def using concat_nonempty[OF g assms(2,3)] by (intro Max_in) auto
  then obtain i j where ij: "argwhere_first g v = Inr (i, j)"
    using argwhere_first_array[OF g assms(2,3)] by blast
  have nm: "np_max g = Inr v" unfolding v_def by (rule np_max_array[OF g assms(2,3)])
  have cc: "fft_crosscov F F ((R + 1) div 2) ((C + 1) div 2) = Inr sh"
    by (simp add: fft_crosscov_def c sh_def)
  have shp: "shape sh = (R, C)" by (rule shape_is_array[OF sh assms(2)])
  have "peak_shift F F =
      rbind (np_max g) (\<lambda>peak. rbind (argwhere_first g peak) (\<lambda>(pr, pc).
         Inr (int pr - (int R - int ((R + 1) div 2)), int pc - (int C - int ((C + 1) div 2)))))"
    unfolding peak_shift_def shape_is_array[OF assms(1,2)] Let_def prod.case cc rbind.simps
      shp fst_conv snd_conv g_def
    by (rule refl)
  moreover have "int R - int ((R + 1) div 2) = int (R div 2)"
      "int C - int ((C + 1) div 2) = int (C div 2)" by auto
  ultimately have ps: "peak_shift F F = Inr (int i - int (R div 2), int j - int (C div 2))"
    by (simp add: nm ij)
  have gs: "get_global_shift F (Some F)
             = ([Pdb_set_trace], Inr (Some (int i - int (R div 2), int j - int (C div 2))))"
    by (simp add: get_global_shift_def fft_flowvectors_def ps)
  have "get_global_shift F (Some F) = ([Pdb_set_trace], Inr (Some (0, 0)))
              \<longleftrightarrow> (i, j) = (R div 2, C div 2)"
    unfolding gs by auto
  then show ?thesis using cc nm ij gs unfolding g_def by blast
qed

text \<open>
  C9, as the claim states it, fails: a uniform field has non-zero content, its
  cross-covariance surface with itself is flat, the first maximum of the smoothed
  surface is at index \<open>(0, 0)\<close>, and the shift returned is \<open>(0, 0) - (dims - [rd, cd])\<close>.
  For the field \<open>[[1, 1]]\<close> that is \<open>(0, - 1)\<close>.
\<close>

theorem global_shift_self_counterexample:
  "get_global_shift [[1, 1]] (Some [[1, 1]]) = ([Pdb_set_trace], Inr (Some (0, - 1)))"
  by (simp add: get_global_shift_def fft_flowvectors_def peak_shift_ones)

text \<open>
  C9, amended: for every non-empty field \<open>F\<close> whose discrete Fourier transform has
  no zero coefficient, the cross-covariance surface of \<open>F\<close> with itself is, after the
  quadrant swap, the unit impulse at the zero-lag index \<open>(R div 2, C div 2)\<close>; the
  smoothed surface has its maximum there and nowhere else, and
  \<^verbatim>\<open>get_global_shift(F, F)\<close> returns the zero shift \<open>(0, 0)\<close>. Every field with exactly one non-zero cell is such a field
  (\<open>single_cell_nonzero_spectrum\<close>); the uniform field of the counterexample is not.
\<close>

theorem global_shift_self_zero:
  assumes "is_array R C F" "0 < R" "0 < C" "nonzero_spectrum F"
  shows "fft_crosscov F F ((R + 1) div 2) ((C + 1) div 2)
           = Inr (map (\<lambda>i. map (\<lambda>j. if i = R div 2 \<and> j = C div 2 then 1 else 0) [0..<C])
                   [0..<R])
       \<and> get_global_shift F (Some F) = ([Pdb_set_trace], Inr (Some (0, 0)))"
proof
  show "fft_crosscov F F ((R + 1) div 2) ((C + 1) div 2)
           = Inr (map (\<lambda>i. map (\<lambda>j. if i = R div 2 \<and> j = C div 2 then 1 else 0) [0..<C])
                   [0..<R])"
    by (rule fft_crosscov_self[OF assms])
  show "get_global_shift F (Some F) = ([Pdb_set_trace], Inr (Some (0, 0)))"
    by (simp add: get_global_shift_def fft_flowvectors_def peak_shift_self[OF assms])
qed

theorem global_shift_self_zero_witness:
  "is_array 2 2 [[2, 0], [0, 0::real]] \<and> (0::nat) < 2
   \<and> nonzero_spectrum [[2, 0], [0, 0]]
   \<and> fft_crosscov [[2, 0], [0, 0]] [[2, 0], [0, 0]] ((2 + 1) div 2) ((2 + 1) div 2)
       = Inr [[0, 0], [0, 1]]
   \<and> get_global_shift [[2, 0], [0, 0]] (Some [[2, 0], [0, 0]])
       = ([Pdb_set_trace], Inr (Some (0, 0)))"
proof -
  have a: "is_array 2 2 [[2, 0], [0, 0::real]]" by (simp add: is_array_def)
  have n: "nonzero_spectrum [[2, 0], [0, 0]]"
    by (simp add: nonzero_spectrum_def fft2_def shape_def lessThan_Suc numeral_2_eq_2)
  from global_shift_self_zero[OF a _ _ n] a n show ?thesis
    by (simp add: upt_conv_Cons)
qed

section \<open>Properties of the scan loop\<close>

subsection \<open>The call of \<^verbatim>\<open>get_global_shift\<close>\<close>

lemma call_three: "call_get_global_shift [a, b, c] = ([], Inl TypeError)"
  by (simp add: call_get_global_shift_def split: pyval.splits list.splits)

lemma flow_and_match_TypeError:
  "flow_and_match env rain save_rain g1 s1 s2 st = Inl TypeError"
  by (simp add: flow_and_match_def call_three)










lemmas eval_defs = get_tracks_def get_tracks_out_def init_or_resume_def scan2_of_def py_index_def advance_def
  artifact_def np_max_def next_scan_def last_scan_def process_scan_def gap_check_def
  update_scan_and_time_def datetime_diff_def save_def load_def finish_def
  stub_collaborators_def quiet_scan_def busy_scan_def new_Cell_tracks_def new_Record_def
  new_Counter_def zeros_like_def drop_rows_def Let_def



subsection \<open>The empty-frame skip\<close>

lemma process_scan_Inr:
  assumes "process_scan env rain save_rain g1 s1 s2 (self, loc) = Inr (self', loc')"
  shows "self' = self\<lparr>current_objects := None\<rparr>" "newRain loc'"
  using assms
  by (cases "np_max (frame1 s1)";
      auto simp: process_scan_def flow_and_match_TypeError split: if_splits option.splits)+

lemma gap_check_tracks: "tracks (fst (gap_check r (self, loc))) = tracks self"
  by (simp add: gap_check_def split: option.splits)

lemma next_scan_tracks:
  assumes "next_scan env rain save_rain (self, loc) cur s1 g = Inr (self', loc', s2')"
  shows "tracks self' = tracks self"
proof -
  from assms obtain s2n r where s: "scan2_of (params self) g = Inr s2n" "self_record self = Some r"
    by (cases "scan2_of (params self) g"; cases "self_record self") (auto simp: next_scan_def)
  define r1 where "r1 = update_scan_and_time r cur (Some g)"
  obtain self2 loc2 where gc: "gap_check r1 (self\<lparr>self_record := Some r1\<rparr>, loc) = (self2, loc2)"
    by (cases "gap_check r1 (self\<lparr>self_record := Some r1\<rparr>, loc)") auto
  have t: "tracks self2 = tracks self"
    using gap_check_tracks[of r1 "self\<lparr>self_record := Some r1\<rparr>" loc] gc by simp
  from assms obtain x where "process_scan env rain save_rain cur s1 s2n (self2, loc2) = Inr (self', x)"
    by (cases "process_scan env rain save_rain cur s1 s2n (self2, loc2)")
       (auto simp: next_scan_def s Let_def r1_def[symmetric] gc)
  from process_scan_Inr(1)[OF this] t show ?thesis by simp
qed

lemma last_scan_tracks:
  assumes "last_scan env rain save_rain (self, loc) cur s1 s2 = Inr (self', loc')"
  shows "tracks self' = tracks self"
proof -
  from assms obtain r where r: "self_record self = Some r"
    by (cases "self_record self") (auto simp: last_scan_def Let_def save_def)
  from assms have "process_scan env rain save_rain cur s1
             (s2\<lparr>raw2 := None, frame2 := zeros_like (frame1 s1),
                 frames2 := map zeros_like (frames1 s1)\<rparr>)
             ((save self)\<lparr>last_grid := Some cur,
                 self_record := Some (update_scan_and_time r cur None)\<rparr>, loc) = Inr (self', loc')"
    by (simp add: last_scan_def Let_def r save_def)
  from process_scan_Inr(1)[OF this] show ?thesis by (simp add: save_def)
qed

lemma scan_loop_tracks:
  assumes "scan_loop env rain save_rain (self, loc, s2) cur gs = Inr (self', loc', g1)"
  shows "tracks self' = tracks self"
  using assms
proof (induction gs arbitrary: self loc s2 cur)
  case Nil
  then obtain s1 loc1 where a: "advance loc s2 = Inr (s1, loc1)"
    by (cases "advance loc s2") auto
  with Nil obtain x where "last_scan env rain save_rain (self, loc1) cur s1 s2 = Inr (self', x)"
    by (cases "last_scan env rain save_rain (self, loc1) cur s1 s2") auto
  then show ?case by (rule last_scan_tracks)
next
  case (Cons g gs)
  then obtain s1 loc1 where a: "advance loc s2 = Inr (s1, loc1)"
    by (cases "advance loc s2") auto
  with Cons.prems obtain skip where k: "artifact (raw1 s1) g = Inr skip"
    by (cases "artifact (raw1 s1) g") auto
  show ?case
  proof (cases skip)
    case True
    with Cons.prems a k have "scan_loop env rain save_rain
        (self, if gs = [] then loc else loc\<lparr>printed := printed loc @ [Skipping_erroneous_grid]\<rparr>,
         s2) cur gs = Inr (self', loc', g1)"
      by simp
    then show ?thesis by (rule Cons.IH)
  next
    case False
    with Cons.prems a k obtain self1 loc2 s2n where
      n: "next_scan env rain save_rain (self, loc1) cur s1 g = Inr (self1, loc2, s2n)"
      and l: "scan_loop env rain save_rain (self1, loc2, s2n) g gs = Inr (self', loc', g1)"
      by (cases "next_scan env rain save_rain (self, loc1) cur s1 g") auto
    from Cons.IH[OF l] next_scan_tracks[OF n] show ?thesis by simp
  qed
qed

lemma empty_frame_last_scan:
  assumes "np_max (frame1 s1) = Inr 0" "self_record self = Some r"
  shows "\<exists>self' loc'.
           last_scan env rain save_rain (self, loc) grid_obj1 s1 s2 = Inr (self', loc')
         \<and> tracks self' = tracks self \<and> current_objects self' = None \<and> newRain loc'"
  using assms by (simp add: last_scan_def Let_def save_def process_scan_def)

lemma empty_frame_next_scan:
  assumes "np_max (frame1 s1) = Inr 0" "self_record self = Some r"
      and "scan2_of (params self) g = Inr s2n"
  shows "\<exists>self' loc'.
           next_scan env rain save_rain (self, loc) grid_obj1 s1 g = Inr (self', loc', s2n)
         \<and> tracks self' = tracks self \<and> current_objects self' = None \<and> newRain loc'"
proof -
  define r1 where "r1 = update_scan_and_time r grid_obj1 (Some g)"
  obtain self2 loc2 where gc: "gap_check r1 (self\<lparr>self_record := Some r1\<rparr>, loc) = (self2, loc2)"
    by (cases "gap_check r1 (self\<lparr>self_record := Some r1\<rparr>, loc)") auto
  have t: "tracks self2 = tracks self"
    using gap_check_tracks[of r1 "self\<lparr>self_record := Some r1\<rparr>" loc] gc by simp
  have rr: "self_record self2 = Some r1"
    using gc by (auto simp: gap_check_def split: option.splits if_splits)
  show ?thesis
    using assms t rr
    by (simp add: next_scan_def Let_def r1_def[symmetric] gc process_scan_def)
qed

text \<open>
  C6: an iteration whose detection frame (\<^verbatim>\<open>frame1\<close>) is entirely empty leaves the
  TracksTable as it is, clears the registry, prints its notice and sets \<^verbatim>\<open>newRain\<close>,
  without flow estimation or matching. The next non-empty frame does not mint uids:
  its iteration raises TypeError at line 271, before the registry is initialised.
  On a new instance and the scans \<open>[quiet_scan 0, busy_scan 600000000]\<close>: the first
  iteration, on the empty frame of the first scan, returns with an empty table, no
  registry and \<^verbatim>\<open>newRain\<close> set; the loop resumed from that state, on the non-empty
  frame of the second scan, raises TypeError, and so does the call.
\<close>

theorem empty_frame_then_TypeError:
  "\<exists>self1 s2 s1 loc1 self2 loc2 s2n.
       init_or_resume new_Cell_tracks [quiet_scan 0, busy_scan 600000000]
         = Inr (self1, quiet_scan 0, [busy_scan 600000000])
     \<and> scan2_of (params self1) (quiet_scan 0) = Inr s2
     \<and> advance \<lparr>newRain = True, last_frame1 = None, obj_merge = None, acc_rain_list = [],
                 acc_rain_uid_list = [], printed = []\<rparr> s2 = Inr (s1, loc1)
     \<and> np_max (frame1 s1) = Inr 0
     \<and> next_scan env rain save_rain (self1, loc1) (quiet_scan 0) s1 (busy_scan 600000000)
         = Inr (self2, loc2, s2n)
     \<and> tracks self2 = [] \<and> current_objects self2 = None \<and> newRain loc2
     \<and> printed loc2 = [No_objects_found 0]
     \<and> np_max (frame2 s2n) = Inr 1
     \<and> scan_loop env rain save_rain (self2, loc2, s2n) (busy_scan 600000000) [] = Inl TypeError
     \<and> get_tracks env new_Cell_tracks [quiet_scan 0, busy_scan 600000000] rain save_rain
         = Inl TypeError"
  by (simp add: eval_defs flow_and_match_TypeError)

subsection \<open>The gap check\<close>

lemma gap_check_clears:
  assumes "interval r = Some iv" "1700 < seconds iv"
  shows "gap_check r (self, loc)
         = (self\<lparr>current_objects := None\<rparr>,
            loc\<lparr>newRain := True, printed := printed loc @ [Time_discontinuity (time r)]\<rparr>)"
  using assms by (simp add: gap_check_def)

lemma gap_check_keeps:
  assumes "interval r = Some iv" "seconds iv \<le> 1700"
  shows "gap_check r (self, loc) = (self, loc)"
  using assms by (simp add: gap_check_def)

lemma seconds_within_a_day:
  assumes "0 \<le> t2 - t1" "t2 - t1 < 86400000000"
  shows "seconds (datetime_diff t2 t1) = (t2 - t1) div 1000000"
  using assms by (simp add: datetime_diff_def Let_def)


subsection \<open>Resuming on an instance that holds tracks\<close>

text \<open>
  C4: on a later call, line 194 evaluates \<^verbatim>\<open>self.tracks.drop(self.record.scan + 1)\<close>
  and does not assign its result, so the table keeps the row of the previous terminal
  scan. For an instance whose Record is at scan 0 and whose table holds the row of
  the terminal scan 1: \<^verbatim>\<open>drop\<close> returns the table without the row, the instance is
  unchanged when the loop starts, and the row is in the table when the call returns.
\<close>

theorem resume_keeps_terminal_row:
  "drop_rows [\<lparr>row_scan = 1, row_uid = 1, row_props = 0\<rparr>] (0 + 1) = Inr []
   \<and> init_or_resume
        (new_Cell_tracks\<lparr>self_record := Some \<lparr>scan = 0, time = Some 0, interval = None\<rparr>,
                         last_grid := Some (quiet_scan 600000000),
                         tracks := [\<lparr>row_scan = 1, row_uid = 1, row_props = 0\<rparr>]\<rparr>)
        [quiet_scan 1200000000]
     = Inr (new_Cell_tracks\<lparr>self_record := Some \<lparr>scan = 0, time = Some 0, interval = None\<rparr>,
                             last_grid := Some (quiet_scan 600000000),
                             tracks := [\<lparr>row_scan = 1, row_uid = 1, row_props = 0\<rparr>]\<rparr>,
            quiet_scan 600000000, [quiet_scan 1200000000])
   \<and> map_sum id tracks
        (get_tracks stub_collaborators
           (new_Cell_tracks\<lparr>self_record := Some \<lparr>scan = 0, time = Some 0, interval = None\<rparr>,
                            last_grid := Some (quiet_scan 600000000),
                            tracks := [\<lparr>row_scan = 1, row_uid = 1, row_props = 0\<rparr>]\<rparr>)
           [quiet_scan 1200000000] True False)
     = Inr [\<lparr>row_scan = 1, row_uid = 1, row_props = 0\<rparr>]"
  by (simp add: eval_defs)

text \<open>
  C3: a call on a sequence with a non-empty detection frame raises TypeError, whether
  the sequence is given at once or in two calls, so neither yields a table. For two
  scans with empty frames (and post-processing passes that leave the table as it is)
  one call returns with the empty table, while the second of two calls raises
  KeyError: the table has no row for \<^verbatim>\<open>drop\<close> to find.
\<close>

theorem resumption_not_equivalent:
  "get_tracks env new_Cell_tracks [busy_scan 0] rain save_rain = Inl TypeError
   \<and> get_tracks env new_Cell_tracks [busy_scan 0, busy_scan 600000000] rain save_rain
       = Inl TypeError
   \<and> map_sum id tracks
        (get_tracks stub_collaborators new_Cell_tracks [quiet_scan 0, quiet_scan 600000000]
           True False)
       = Inr []
   \<and> rbind (get_tracks stub_collaborators new_Cell_tracks [quiet_scan 0] True False)
        (\<lambda>self. get_tracks stub_collaborators self [quiet_scan 600000000] True False)
       = Inl KeyError"
  by (simp add: eval_defs flow_and_match_TypeError)

end
